theory Spec2Isabelle
  imports Complex_Main
begin

section \<open>Floating-point values with infinities and NaN\<close>

text \<open>
  The program computes with Python floats and numpy float64 arrays. A value is modelled
  as a finite real, one of the two infinities, or NaN. The operations \<open>fadd\<close>, \<open>fsub\<close>,
  \<open>fmul\<close> and \<open>fdiv\<close> are exact on finite values and follow IEEE 754 in how non-finite
  values arise and propagate: division by zero, 0/0, inf - inf, 0 * inf, and NaN through
  every operation. The acquisition functions are modelled with them.

  The kernels are modelled with the operations \<open>dadd\<close>, \<open>dsub\<close>, \<open>dmul\<close> and \<open>ddiv\<close>,
  which also keep a result within the range of a double: a result too large becomes an
  infinity (or raises OverflowError where Python does) and a result too small becomes
  zero. In both families a finite result within the range is exact: the rounding to 53
  bits is not represented.

  There is one zero. The program's \<open>-0.0\<close> behaves as \<open>0.0\<close> in every operation modelled
  here except as a divisor, where it gives the infinity of the opposite sign. A divisor
  \<open>-0.0\<close> can arise only in \<open>full_PoI\<close>, from a variance entry \<open>-0.0\<close>; every other divisor
  in the program is a square, a square root of a positive number, or is guarded.
\<close>

datatype fl = Fin real | PInf | NInf | NaN

datatype error = ValueError | IndexError | OverflowError

fun isfinite :: "fl \<Rightarrow> bool" where
  "isfinite (Fin r) = True"
| "isfinite PInf = False"
| "isfinite NInf = False"
| "isfinite NaN = False"

fun fneg :: "fl \<Rightarrow> fl" where
  "fneg (Fin r) = Fin (- r)"
| "fneg PInf = NInf"
| "fneg NInf = PInf"
| "fneg NaN = NaN"

fun fadd :: "fl \<Rightarrow> fl \<Rightarrow> fl" where
  "fadd (Fin a) (Fin b) = Fin (a + b)"
| "fadd (Fin a) PInf = PInf"
| "fadd (Fin a) NInf = NInf"
| "fadd PInf (Fin b) = PInf"
| "fadd PInf PInf = PInf"
| "fadd PInf NInf = NaN"
| "fadd NInf (Fin b) = NInf"
| "fadd NInf NInf = NInf"
| "fadd NInf PInf = NaN"
| "fadd NaN y = NaN"
| "fadd x NaN = NaN"

definition fsub :: "fl \<Rightarrow> fl \<Rightarrow> fl" where
  "fsub x y = fadd x (fneg y)"

text \<open>The infinity whose sign is that of a nonzero real.\<close>

definition inf_of_sign :: "real \<Rightarrow> fl" where
  "inf_of_sign a = (if 0 < a then PInf else NInf)"

fun fmul :: "fl \<Rightarrow> fl \<Rightarrow> fl" where
  "fmul (Fin a) (Fin b) = Fin (a * b)"
| "fmul (Fin a) PInf = (if a = 0 then NaN else inf_of_sign a)"
| "fmul (Fin a) NInf = (if a = 0 then NaN else inf_of_sign (- a))"
| "fmul PInf (Fin b) = (if b = 0 then NaN else inf_of_sign b)"
| "fmul NInf (Fin b) = (if b = 0 then NaN else inf_of_sign (- b))"
| "fmul PInf PInf = PInf"
| "fmul PInf NInf = NInf"
| "fmul NInf PInf = NInf"
| "fmul NInf NInf = PInf"
| "fmul NaN y = NaN"
| "fmul x NaN = NaN"

text \<open>
  numpy's true division (warnings only, no exception): a nonzero finite value over zero
  is an infinity, 0/0 and inf/inf are NaN, a finite value over an infinity is 0.
\<close>

fun fdiv :: "fl \<Rightarrow> fl \<Rightarrow> fl" where
  "fdiv (Fin a) (Fin b) =
     (if b = 0 then (if a = 0 then NaN else inf_of_sign a) else Fin (a / b))"
| "fdiv (Fin a) PInf = Fin 0"
| "fdiv (Fin a) NInf = Fin 0"
| "fdiv PInf (Fin b) = (if 0 \<le> b then PInf else NInf)"
| "fdiv NInf (Fin b) = (if 0 \<le> b then NInf else PInf)"
| "fdiv PInf PInf = NaN"
| "fdiv PInf NInf = NaN"
| "fdiv NInf PInf = NaN"
| "fdiv NInf NInf = NaN"
| "fdiv NaN y = NaN"
| "fdiv x NaN = NaN"

text \<open>The comparison \<open>x > 0\<close>: false for NaN.\<close>

fun fpos :: "fl \<Rightarrow> bool" where
  "fpos (Fin r) = (0 < r)"
| "fpos PInf = True"
| "fpos NInf = False"
| "fpos NaN = False"

subsection \<open>The range of a double\<close>

text \<open>
  The largest double is \<open>2^1024 - 2^971\<close>. A real result of magnitude \<open>2^1024 - 2^970\<close> or
  more (halfway to \<open>2^1024\<close>) rounds to an infinity. The least positive double is
  \<open>2^-1074\<close>; a real result of magnitude \<open>2^-1075\<close> or less rounds to zero.
\<close>

definition overflow_threshold :: real where
  "overflow_threshold = 2 ^ 1024 - 2 ^ 970"

definition underflow_threshold :: real where
  "underflow_threshold = 1 / 2 ^ 1075"

definition clip :: "real \<Rightarrow> fl" where
  "clip r =
     (if overflow_threshold \<le> r then PInf
      else if r \<le> - overflow_threshold then NInf
      else if \<bar>r\<bar> \<le> underflow_threshold then Fin 0
      else Fin r)"

fun ranged :: "fl \<Rightarrow> fl" where
  "ranged (Fin r) = clip r"
| "ranged PInf = PInf"
| "ranged NInf = NInf"
| "ranged NaN = NaN"

text \<open>
  Addition, subtraction, multiplication and division of doubles, in numpy and between
  Python floats where the left operand of a division is a numpy value: no exception.
\<close>

definition dadd :: "fl \<Rightarrow> fl \<Rightarrow> fl" where
  "dadd x y = ranged (fadd x y)"

definition dsub :: "fl \<Rightarrow> fl \<Rightarrow> fl" where
  "dsub x y = ranged (fsub x y)"

definition dmul :: "fl \<Rightarrow> fl \<Rightarrow> fl" where
  "dmul x y = ranged (fmul x y)"

definition ddiv :: "fl \<Rightarrow> fl \<Rightarrow> fl" where
  "ddiv x y = ranged (fdiv x y)"

text \<open>
  \<open>x ** 2\<close> on a Python float raises OverflowError when the square is too large, and
  gives \<open>0.0\<close> when it is too small.
\<close>

fun py_square :: "fl \<Rightarrow> error + fl" where
  "py_square (Fin r) =
     (if overflow_threshold \<le> r * r then Inl OverflowError else Inr (clip (r * r)))"
| "py_square PInf = Inr PInf"
| "py_square NInf = Inr PInf"
| "py_square NaN = Inr NaN"

text \<open>
  \<open>math.exp\<close> raises OverflowError when the result is too large, and gives \<open>0.0\<close> when it
  is too small.
\<close>

fun exp_math :: "fl \<Rightarrow> error + fl" where
  "exp_math (Fin r) =
     (if overflow_threshold \<le> exp r then Inl OverflowError else Inr (clip (exp r)))"
| "exp_math PInf = Inr PInf"
| "exp_math NInf = Inr (Fin 0)"
| "exp_math NaN = Inr NaN"

text \<open>\<open>math.sqrt\<close> raises ValueError on a negative argument.\<close>

fun sqrt_math :: "fl \<Rightarrow> error + fl" where
  "sqrt_math (Fin r) = (if r < 0 then Inl ValueError else Inr (Fin (sqrt r)))"
| "sqrt_math PInf = Inr PInf"
| "sqrt_math NInf = Inl ValueError"
| "sqrt_math NaN = Inr NaN"

text \<open>\<open>numpy.sqrt\<close> returns NaN on a negative argument.\<close>

fun sqrt_numpy :: "fl \<Rightarrow> fl" where
  "sqrt_numpy (Fin r) = (if r < 0 then NaN else Fin (sqrt r))"
| "sqrt_numpy PInf = PInf"
| "sqrt_numpy NInf = NaN"
| "sqrt_numpy NaN = NaN"

text \<open>Sequencing of computations that may raise.\<close>

fun rbind :: "error + 'a \<Rightarrow> ('a \<Rightarrow> error + 'b) \<Rightarrow> error + 'b" where
  "rbind (Inl e) f = Inl e"
| "rbind (Inr v) f = f v"

section \<open>Vectors\<close>

text \<open>
  A point is a 1-D array. A binary operation on two 1-D arrays (\<open>x1 - x2\<close>, \<open>a / b\<close>)
  is elementwise; numpy stretches an operand of length 1 to the other's length and
  raises ValueError on any other length mismatch.
\<close>

definition elementwise :: "(fl \<Rightarrow> fl \<Rightarrow> fl) \<Rightarrow> fl list \<Rightarrow> fl list \<Rightarrow> error + fl list" where
  "elementwise f x1 x2 =
     (if length x1 = length x2 then Inr (map2 f x1 x2)
      else if length x1 = 1 then Inr (map (\<lambda>b. f (hd x1) b) x2)
      else if length x2 = 1 then Inr (map (\<lambda>a. f a (hd x2)) x1)
      else Inl ValueError)"

definition vsub :: "fl list \<Rightarrow> fl list \<Rightarrow> error + fl list" where
  "vsub x1 x2 = elementwise dsub x1 x2"

fun dsum :: "fl list \<Rightarrow> fl" where
  "dsum [] = Fin 0"
| "dsum (x # xs) = dadd x (dsum xs)"

text \<open>\<open>numpy.dot\<close> on two 1-D arrays: ValueError unless the lengths agree.\<close>

definition dot :: "fl list \<Rightarrow> fl list \<Rightarrow> error + fl" where
  "dot a b = (if length a = length b then Inr (dsum (map2 dmul a b)) else Inl ValueError)"

section \<open>Kernels\<close>

text \<open>
  The methods of class \<open>kernels\<close>; the object's fields \<open>t\<close> and \<open>l\<close> are the first two
  arguments, taken as Python floats. The steps are in the order in which Python
  evaluates them, so that the first exception is the one raised.
\<close>

text \<open>
  \<open>return (self.t**2) * exp(-numpy.dot(x1 - x2, x1 - x2) / (2 * self.l**2))\<close>
\<close>

definition squared_exp :: "fl \<Rightarrow> fl \<Rightarrow> fl list \<Rightarrow> fl list \<Rightarrow> error + fl" where
  "squared_exp t l x1 x2 =
     rbind (py_square t) (\<lambda>t2.
     rbind (vsub x1 x2) (\<lambda>d.
     rbind (dot d d) (\<lambda>dd.
     rbind (py_square l) (\<lambda>l2.
     rbind (exp_math (ddiv (fneg dd) (dmul (Fin 2) l2))) (\<lambda>e.
       Inr (dmul t2 e))))))"

text \<open>
  \<open>r2 = numpy.dot(x1 - x2, x1 - x2) / (self.l**2)\<close>

  \<open>return (self.t ** 2) * (1 + sqrt(5 * r2) + (5/3) * r2) * exp(-sqrt(5 * r2))\<close>
\<close>

definition ARD_matern :: "fl \<Rightarrow> fl \<Rightarrow> fl list \<Rightarrow> fl list \<Rightarrow> error + fl" where
  "ARD_matern t l x1 x2 =
     rbind (vsub x1 x2) (\<lambda>d.
     rbind (dot d d) (\<lambda>dd.
     rbind (py_square l) (\<lambda>l2.
       let r2 = ddiv dd l2 in
       rbind (py_square t) (\<lambda>t2.
       rbind (sqrt_math (dmul (Fin 5) r2)) (\<lambda>s1.
         let bracket = dadd (dadd (Fin 1) s1) (dmul (Fin (5 / 3)) r2) in
         rbind (sqrt_math (dmul (Fin 5) r2)) (\<lambda>s2.
         rbind (exp_math (fneg s2)) (\<lambda>e.
           Inr (dmul (dmul t2 bracket) e))))))))"

text \<open>\<open>return self.t * numpy.dot(x1, x2)\<close>\<close>

definition trivial :: "fl \<Rightarrow> fl list \<Rightarrow> fl list \<Rightarrow> error + fl" where
  "trivial t x1 x2 = rbind (dot x1 x2) (\<lambda>d. Inr (dmul t d))"

text \<open>The squared Euclidean distance of two real points, as a real number.\<close>

definition sqdist :: "real list \<Rightarrow> real list \<Rightarrow> real" where
  "sqdist xs ys = (\<Sum>p\<leftarrow>zip xs ys. (fst p - snd p)\<^sup>2)"

definition vdiff :: "real list \<Rightarrow> real list \<Rightarrow> real list" where
  "vdiff xs ys = map (\<lambda>p. fst p - snd p) (zip xs ys)"

text \<open>
  A real number that a double operation returns unchanged: it is below the overflow
  threshold and is zero or above the underflow threshold.
\<close>

definition in_range :: "real \<Rightarrow> bool" where
  "in_range r \<longleftrightarrow> \<bar>r\<bar> < overflow_threshold \<and> (r = 0 \<or> underflow_threshold < \<bar>r\<bar>)"

text \<open>
  No intermediate result of \<open>squared_exp\<close> on real arguments leaves the range: the
  coordinate differences, their squares and the sum of the squares, \<open>t\<^sup>2\<close>, \<open>l\<^sup>2\<close>,
  \<open>2 l\<^sup>2\<close>, the quotient, the exponential and the product.
\<close>

definition squared_exp_in_range :: "real \<Rightarrow> real \<Rightarrow> real list \<Rightarrow> real list \<Rightarrow> bool" where
  "squared_exp_in_range t l xs ys \<longleftrightarrow>
     list_all (\<lambda>p. in_range (fst p - snd p) \<and> in_range ((fst p - snd p)\<^sup>2)) (zip xs ys) \<and>
     sqdist xs ys < overflow_threshold \<and>
     in_range (t\<^sup>2) \<and> in_range (l\<^sup>2) \<and> l \<noteq> 0 \<and> 2 * l\<^sup>2 < overflow_threshold \<and>
     in_range (sqdist xs ys / (2 * l\<^sup>2)) \<and>
     in_range (exp (- sqdist xs ys / (2 * l\<^sup>2))) \<and>
     in_range (t\<^sup>2 * exp (- sqdist xs ys / (2 * l\<^sup>2)))"

text \<open>The bracket of the Matern kernel on a real \<open>r2\<close>.\<close>

definition matern_bracket :: "real \<Rightarrow> real" where
  "matern_bracket r2 = 1 + sqrt (5 * r2) + (5 / 3) * r2"

text \<open>A value that is a real number and not negative, or plus infinity.\<close>

fun nonneg_or_inf :: "fl \<Rightarrow> bool" where
  "nonneg_or_inf (Fin r) = (0 \<le> r)"
| "nonneg_or_inf PInf = True"
| "nonneg_or_inf NInf = False"
| "nonneg_or_inf NaN = False"

text \<open>A value that is a real number and not negative.\<close>

fun nonneg_real :: "fl \<Rightarrow> bool" where
  "nonneg_real (Fin r) = (0 \<le> r)"
| "nonneg_real PInf = False"
| "nonneg_real NInf = False"
| "nonneg_real NaN = False"

section \<open>Covariance\<close>

text \<open>
  An argument of \<open>covariance\<close> is a 1-D array (a single point) or a 2-D array (one point
  per row); the result is 1-D in fast mode and 2-D otherwise.
\<close>

datatype ndarray = Arr1 "fl list" | Arr2 "fl list list"

text \<open>
  \<open>try: X.shape[1]  except: X = X.reshape((1, len(X)))\<close>: a 1-D array has no second
  dimension and becomes a matrix of one row; a 2-D array is left as it is.
\<close>

fun as_rows :: "ndarray \<Rightarrow> fl list list" where
  "as_rows (Arr1 v) = [v]"
| "as_rows (Arr2 rows) = rows"

text \<open>\<open>X[row, :]\<close>, \<open>M[row] = v\<close> and \<open>M[row1, row2] = v\<close>: IndexError out of range.\<close>

definition getrow :: "fl list list \<Rightarrow> nat \<Rightarrow> error + fl list" where
  "getrow X row = (if row < length X then Inr (X ! row) else Inl IndexError)"

definition setitem :: "fl list \<Rightarrow> nat \<Rightarrow> fl \<Rightarrow> error + fl list" where
  "setitem M row v = (if row < length M then Inr (M[row := v]) else Inl IndexError)"

definition setitem2 :: "fl list list \<Rightarrow> nat \<Rightarrow> nat \<Rightarrow> fl \<Rightarrow> error + fl list list" where
  "setitem2 M row1 row2 v =
     (if row1 < length M \<and> row2 < length (M ! row1)
      then Inr (M[row1 := (M ! row1)[row2 := v]]) else Inl IndexError)"

definition zeros :: "nat \<Rightarrow> fl list" where
  "zeros n = replicate n (Fin 0)"

definition zeros2 :: "nat \<Rightarrow> nat \<Rightarrow> fl list list" where
  "zeros2 n m = replicate n (replicate m (Fin 0))"

text \<open>
  A kernel is called with two rows and returns a number or raises. The parameter
  \<open>kernel\<close> of the source is written \<open>kern\<close>.
\<close>

type_synonym kernel = "fl list \<Rightarrow> fl list \<Rightarrow> error + fl"

text \<open>\<open>for row in range(len(X2)): M[row] = kernel(X1[row, :], X2[row, :])\<close>\<close>

fun fast_loop :: "kernel \<Rightarrow> fl list list \<Rightarrow> fl list list \<Rightarrow> nat list \<Rightarrow> fl list \<Rightarrow> error + fl list" where
  "fast_loop kern X1 X2 [] M = Inr M"
| "fast_loop kern X1 X2 (row # rest) M =
     rbind (getrow X1 row) (\<lambda>a.
     rbind (getrow X2 row) (\<lambda>b.
     rbind (kern a b) (\<lambda>v.
     rbind (setitem M row v) (\<lambda>M'.
       fast_loop kern X1 X2 rest M'))))"

text \<open>\<open>for row2 in range(len(X2)): M[row1, row2] = kernel(X1[row1, :], X2[row2, :])\<close>\<close>

fun inner_loop ::
  "kernel \<Rightarrow> fl list list \<Rightarrow> fl list list \<Rightarrow> nat \<Rightarrow> nat list \<Rightarrow> fl list list \<Rightarrow> error + fl list list" where
  "inner_loop kern X1 X2 row1 [] M = Inr M"
| "inner_loop kern X1 X2 row1 (row2 # rest) M =
     rbind (getrow X1 row1) (\<lambda>a.
     rbind (getrow X2 row2) (\<lambda>b.
     rbind (kern a b) (\<lambda>v.
     rbind (setitem2 M row1 row2 v) (\<lambda>M'.
       inner_loop kern X1 X2 row1 rest M'))))"

text \<open>\<open>for row1 in range(len(X1)): ...\<close>\<close>

fun outer_loop ::
  "kernel \<Rightarrow> fl list list \<Rightarrow> fl list list \<Rightarrow> nat list \<Rightarrow> fl list list \<Rightarrow> error + fl list list" where
  "outer_loop kern X1 X2 [] M = Inr M"
| "outer_loop kern X1 X2 (row1 # rest) M =
     rbind (inner_loop kern X1 X2 row1 [0..<length X2] M) (\<lambda>M'.
       outer_loop kern X1 X2 rest M')"

definition covariance :: "ndarray \<Rightarrow> ndarray \<Rightarrow> kernel \<Rightarrow> bool \<Rightarrow> error + ndarray" where
  "covariance X1 X2 kern fast =
     (let X1 = as_rows X1; X2 = as_rows X2 in
      if fast then
        rbind (fast_loop kern X1 X2 [0..<length X2] (zeros (length X1))) (\<lambda>M. Inr (Arr1 M))
      else
        rbind (outer_loop kern X1 X2 [0..<length X1] (zeros2 (length X1) (length X2)))
          (\<lambda>M. Inr (Arr2 M)))"

text \<open>The number a kernel call returns, for stating what an entry of the result is.\<close>

definition kval :: "kernel \<Rightarrow> fl list \<Rightarrow> fl list \<Rightarrow> fl" where
  "kval kern a b = (case kern a b of Inr v \<Rightarrow> v | Inl e \<Rightarrow> NaN)"

section \<open>The standard normal distribution\<close>

text \<open>
  \<open>scipy.stats.norm\<close> is a library the program calls. Its density is
  \<open>exp (- z\<^sup>2 / 2) / sqrt (2 pi)\<close>; its distribution function is given by the power
  series of the integral of the density, which converges for every real. On the
  non-finite values: \<open>cdf\<close> is 1 at +inf and 0 at -inf, \<open>pdf\<close> is 0 at both, and both give
  NaN at NaN.
\<close>

definition phi :: "real \<Rightarrow> real" where
  "phi z = exp (- z\<^sup>2 / 2) / sqrt (2 * pi)"

definition Phi :: "real \<Rightarrow> real" where
  "Phi z = 1 / 2 + (\<Sum>n. (- 1) ^ n * z ^ (2 * n + 1) / (2 ^ n * fact n * real (2 * n + 1))) / sqrt (2 * pi)"

fun norm_cdf :: "fl \<Rightarrow> fl" where
  "norm_cdf (Fin z) = Fin (Phi z)"
| "norm_cdf PInf = Fin 1"
| "norm_cdf NInf = Fin 0"
| "norm_cdf NaN = NaN"

fun norm_pdf :: "fl \<Rightarrow> fl" where
  "norm_pdf (Fin z) = Fin (phi z)"
| "norm_pdf PInf = Fin 0"
| "norm_pdf NInf = Fin 0"
| "norm_pdf NaN = NaN"

section \<open>Acquisition functions\<close>

text \<open>
  The Gaussian process is an object with a method \<open>sample_predict\<close> that gives the pair
  (mean, variance) at a point. The field \<open>kappa\<close> of class \<open>acquisition\<close> is the first
  argument of the methods that read it.
\<close>

record 'x gp =
  sample_predict :: "'x \<Rightarrow> fl \<times> fl"

definition UCB :: "fl \<Rightarrow> 'x \<Rightarrow> 'x gp \<Rightarrow> fl \<Rightarrow> error + fl" where
  "UCB kappa x g ymax =
     (case sample_predict g x of (mean, var) \<Rightarrow>
        rbind (sqrt_math var) (\<lambda>s. Inr (fadd mean (fmul kappa s))))"

text \<open>
  In \<open>EI\<close> and \<open>PoI\<close> the division by \<open>sqrt(var)\<close> is reached only when \<open>var == 0\<close> is
  false, so its divisor is never zero.
\<close>

definition EI :: "'x \<Rightarrow> 'x gp \<Rightarrow> fl \<Rightarrow> error + fl" where
  "EI x g ymax =
     (case sample_predict g x of (mean, var) \<Rightarrow>
        if var = Fin 0 then Inr (Fin 0)
        else
          rbind (sqrt_math var) (\<lambda>s.
            let Z = fdiv (fsub mean ymax) s in
            rbind (sqrt_math var) (\<lambda>s'.
              Inr (fadd (fmul (fsub mean ymax) (norm_cdf Z)) (fmul s' (norm_pdf Z))))))"

definition PoI :: "'x \<Rightarrow> 'x gp \<Rightarrow> fl \<Rightarrow> error + fl" where
  "PoI x g ymax =
     (case sample_predict g x of (mean, var) \<Rightarrow>
        if var = Fin 0 then Inr (Fin 1)
        else
          rbind (sqrt_math var) (\<lambda>s.
            let Z = fdiv (fsub mean ymax) s in
            Inr (norm_cdf Z)))"

text \<open>
  Boolean-mask indexing \<open>a[mask]\<close> keeps the entries where the mask is true, and raises
  IndexError when the mask and the array differ in length.
\<close>

fun select :: "'a list \<Rightarrow> bool list \<Rightarrow> 'a list" where
  "select (x # xs) (b # bs) = (if b then x # select xs bs else select xs bs)"
| "select xs bs = []"

definition bool_index :: "'a list \<Rightarrow> bool list \<Rightarrow> error + 'a list" where
  "bool_index a sel = (if length sel = length a then Inr (select a sel) else Inl IndexError)"

text \<open>
  Boolean-mask assignment \<open>a[mask] = vals\<close> writes the values, in order, to the positions
  where the mask is true. In \<open>full_EI\<close> the values are computed from arrays selected by
  the same mask, so there is one value for each such position.
\<close>

fun place :: "'a list \<Rightarrow> bool list \<Rightarrow> 'a list \<Rightarrow> 'a list" where
  "place (e # es) (True # bs) (v # vs) = v # place es bs vs"
| "place (e # es) (False # bs) vs = e # place es bs vs"
| "place es bs vs = es"

definition bool_assign :: "'a list \<Rightarrow> bool list \<Rightarrow> 'a list \<Rightarrow> error + 'a list" where
  "bool_assign a sel vals =
     (if length sel = length a then Inr (place a sel vals) else Inl IndexError)"

text \<open>
  \<open>full_EI\<close> and \<open>full_PoI\<close> take the means and variances as 1-D arrays. The flag
  \<open>verbose\<close> of \<open>full_EI\<close> only prints and is left out. The source writes
  \<open>mean[var > 0]\<close> and \<open>var[var > 0]\<close> twice each; they are evaluated once here.
\<close>

definition full_EI :: "fl \<Rightarrow> fl list \<Rightarrow> fl list \<Rightarrow> error + fl list" where
  "full_EI ymax mean var =
     (let ei = zeros (length mean);
          var = map sqrt_numpy var;
          sel = map fpos var
      in
      rbind (bool_index mean sel) (\<lambda>m.
      rbind (bool_index var sel) (\<lambda>s.
        let d = map (\<lambda>a. fsub a ymax) m in
        rbind (elementwise fdiv d s) (\<lambda>Z.
        rbind (elementwise fmul d (map norm_cdf Z)) (\<lambda>t1.
        rbind (elementwise fmul s (map norm_pdf Z)) (\<lambda>t2.
        rbind (elementwise fadd t1 t2) (\<lambda>vals.
          bool_assign ei sel vals)))))))"

text \<open>The array \<open>gamma\<close> of \<open>full_PoI\<close>.\<close>

definition full_PoI_gamma :: "fl \<Rightarrow> fl list \<Rightarrow> fl list \<Rightarrow> error + fl list" where
  "full_PoI_gamma ymax mean var =
     (let var = map sqrt_numpy var in
      elementwise fdiv (map (\<lambda>a. fsub a ymax) mean) var)"

definition full_PoI :: "fl \<Rightarrow> fl list \<Rightarrow> fl list \<Rightarrow> error + fl list" where
  "full_PoI ymax mean var =
     rbind (full_PoI_gamma ymax mean var) (\<lambda>gamma. Inr (map norm_cdf gamma))"

text \<open>
  The EI formula at one mean and one standard deviation, in the arithmetic of the
  program: \<open>(mean - ymax) cdf(Z) + sd pdf(Z)\<close> with \<open>Z = (mean - ymax) / sd\<close>.
\<close>

definition EI_point :: "fl \<Rightarrow> fl \<Rightarrow> fl \<Rightarrow> fl" where
  "EI_point ymax mean sd =
     (let Z = fdiv (fsub mean ymax) sd
      in fadd (fmul (fsub mean ymax) (norm_cdf Z)) (fmul sd (norm_pdf Z)))"

text \<open>The EI formula on real numbers, at a mean and a variance.\<close>

definition EI_formula :: "real \<Rightarrow> real \<Rightarrow> real \<Rightarrow> real" where
  "EI_formula ymax mean variance =
     (let Z = (mean - ymax) / sqrt variance
      in (mean - ymax) * Phi Z + sqrt variance * phi Z)"

section \<open>Range lemmas and kernel lemmas\<close>

lemma overflow_threshold_gt: "2 ^ 1000 < overflow_threshold"
  by (simp add: overflow_threshold_def)

lemma overflow_threshold_gt_1: "1 < overflow_threshold"
  using overflow_threshold_gt by (rule less_trans [rotated]) simp

lemma underflow_threshold_pos: "0 < underflow_threshold"
  by (simp add: underflow_threshold_def)

lemma underflow_threshold_lt: "underflow_threshold < 1 / 2 ^ 1000"
  by (simp add: underflow_threshold_def)

lemma clip_in_range: "in_range r \<Longrightarrow> clip r = Fin r"
  using underflow_threshold_pos by (auto simp add: in_range_def clip_def)

lemma clip_0: "clip 0 = Fin 0"
  using underflow_threshold_pos overflow_threshold_gt_1 by (simp add: clip_def)

lemma clip_1: "clip 1 = Fin 1"
proof -
  have "underflow_threshold < 1"
    using underflow_threshold_lt by (rule less_trans) simp
  then show ?thesis
    using overflow_threshold_gt_1 by (simp add: clip_def)
qed

lemma clip_nonneg:
  assumes "0 \<le> r" and "r < overflow_threshold"
  shows "\<exists>r'. clip r = Fin r' \<and> 0 \<le> r' \<and> r' \<le> r"
  using assms overflow_threshold_gt_1 by (auto simp add: clip_def)

lemma clip_clip:
  assumes "clip r = Fin r'"
  shows "clip r' = Fin r'"
  using assms underflow_threshold_pos overflow_threshold_gt_1
  by (auto simp add: clip_def split: if_splits)

lemma py_square_ok:
  "r * r < overflow_threshold \<Longrightarrow> py_square (Fin r) = Inr (clip (r * r))"
  by simp

lemma py_square_in_range:
  "in_range (r * r) \<Longrightarrow> py_square (Fin r) = Inr (Fin (r * r))"
  by (simp add: clip_in_range) (simp add: in_range_def)

lemma vsub_same: "vsub (map Fin xs) (map Fin xs) = Inr (map (\<lambda>x. Fin 0) xs)"
proof -
  have "map2 dsub (map Fin xs) (map Fin xs) = map (\<lambda>x. Fin 0) xs"
    by (induction xs) (simp_all add: dsub_def fsub_def clip_0)
  then show ?thesis
    by (simp add: vsub_def elementwise_def)
qed

lemma dot_zeros: "dot (map (\<lambda>x. Fin 0) xs) (map (\<lambda>x. Fin 0) xs) = Inr (Fin 0)"
proof -
  have "dsum (map2 dmul (map (\<lambda>x. Fin 0) xs) (map (\<lambda>x. Fin 0) xs)) = Fin 0"
    by (induction xs) (simp_all add: dmul_def dadd_def clip_0)
  then show ?thesis
    by (simp add: dot_def)
qed

lemma ddiv_zero:
  assumes "underflow_threshold < b"
  shows "ddiv (Fin 0) (dmul (Fin 2) (Fin b)) = Fin 0" and "ddiv (Fin 0) (Fin b) = Fin 0"
proof -
  have b: "0 < b"
    using assms underflow_threshold_pos by linarith
  then show "ddiv (Fin 0) (Fin b) = Fin 0"
    by (simp add: ddiv_def clip_0)
  have "clip (2 * b) = PInf \<or> clip (2 * b) = Fin (2 * b)"
    using assms b by (auto simp add: clip_def)
  then show "ddiv (Fin 0) (dmul (Fin 2) (Fin b)) = Fin 0"
    using b by (auto simp add: ddiv_def dmul_def clip_0)
qed

lemma exp_math_zero: "exp_math (Fin 0) = Inr (Fin 1)"
  using overflow_threshold_gt_1 by (simp add: clip_1)

lemma dmul_clip_one:
  assumes "0 \<le> r" and "r < overflow_threshold"
  shows "dmul (clip r) (Fin 1) = clip r"
proof -
  obtain r' where r': "clip r = Fin r'"
    using clip_nonneg [OF assms] by blast
  then show ?thesis
    using clip_clip [OF r'] by (simp add: dmul_def)
qed

lemma squared_exp_same:
  assumes "t * t < overflow_threshold" and "underflow_threshold < l * l"
    and "l * l < overflow_threshold"
  shows "squared_exp (Fin t) (Fin l) (map Fin xs) (map Fin xs) = Inr (clip (t * t))"
proof -
  have l2: "py_square (Fin l) = Inr (Fin (l * l))"
    using assms(2,3) by (intro py_square_in_range) (simp add: in_range_def)
  have "squared_exp (Fin t) (Fin l) (map Fin xs) (map Fin xs) =
        rbind (exp_math (ddiv (fneg (Fin 0)) (dmul (Fin 2) (Fin (l * l))))) (\<lambda>e.
          Inr (dmul (clip (t * t)) e))"
    unfolding squared_exp_def
    by (simp only: py_square_ok [OF assms(1)] vsub_same dot_zeros l2 rbind.simps)
  also have "\<dots> = Inr (dmul (clip (t * t)) (Fin 1))"
    using ddiv_zero(1) [OF assms(2)] by (simp only: fneg.simps minus_zero exp_math_zero rbind.simps)
  also have "\<dots> = Inr (clip (t * t))"
    using dmul_clip_one [of "t * t"] assms(1) by simp
  finally show ?thesis .
qed

lemma ARD_matern_same:
  assumes "t * t < overflow_threshold" and "underflow_threshold < l * l"
    and "l * l < overflow_threshold"
  shows "ARD_matern (Fin t) (Fin l) (map Fin xs) (map Fin xs) = Inr (clip (t * t))"
proof -
  have l2: "py_square (Fin l) = Inr (Fin (l * l))"
    using assms(2,3) by (intro py_square_in_range) (simp add: in_range_def)
  have r2: "ddiv (Fin 0) (Fin (l * l)) = Fin 0"
    using ddiv_zero(2) [OF assms(2)] .
  have five: "dmul (Fin 5) (Fin 0) = Fin 0" "dmul (Fin (5 / 3)) (Fin 0) = Fin 0"
    by (simp_all add: dmul_def clip_0)
  have bracket: "dadd (dadd (Fin 1) (Fin 0)) (Fin 0) = Fin 1"
    by (simp add: dadd_def clip_1)
  have "ARD_matern (Fin t) (Fin l) (map Fin xs) (map Fin xs) =
        Inr (dmul (dmul (clip (t * t)) (Fin 1)) (Fin 1))"
    unfolding ARD_matern_def
    by (simp add: py_square_ok [OF assms(1)] vsub_same dot_zeros l2 r2 five bracket
        exp_math_zero Let_def del: py_square.simps exp_math.simps)
  also have "\<dots> = Inr (clip (t * t))"
    using dmul_clip_one [of "t * t"] assms(1) by simp
  finally show ?thesis .
qed

lemma in_range_uminus: "in_range (- r) = in_range r"
  by (simp add: in_range_def)

lemma vsub_in_range:
  assumes "length xs = length ys"
    and "list_all (\<lambda>p. in_range (fst p - snd p) \<and> in_range ((fst p - snd p)\<^sup>2)) (zip xs ys)"
  shows "vsub (map Fin xs) (map Fin ys) = Inr (map Fin (vdiff xs ys))"
proof -
  have "map2 dsub (map Fin xs) (map Fin ys) = map Fin (vdiff xs ys)"
    using assms
    by (induction xs ys rule: list_induct2)
      (simp_all add: vdiff_def dsub_def fsub_def clip_in_range)
  then show ?thesis
    using assms(1) by (simp add: vsub_def elementwise_def)
qed

lemma dsum_in_range:
  assumes "list_all (\<lambda>s. 0 \<le> s \<and> in_range s) ss" and "sum_list ss < overflow_threshold"
  shows "dsum (map Fin ss) = Fin (sum_list ss) \<and> 0 \<le> sum_list ss \<and> in_range (sum_list ss)"
  using assms
proof (induction ss)
  case Nil
  then show ?case
    using overflow_threshold_gt_1 by (simp add: in_range_def)
next
  case (Cons s ss)
  then have s: "0 \<le> s" "in_range s" and rest: "list_all (\<lambda>s. 0 \<le> s \<and> in_range s) ss"
    by simp_all
  have nn: "0 \<le> sum_list ss"
    using rest by (induction ss) simp_all
  have "sum_list ss < overflow_threshold"
    using Cons.prems(2) s(1) by simp
  with Cons.IH rest have ih: "dsum (map Fin ss) = Fin (sum_list ss)" "in_range (sum_list ss)"
    by simp_all
  have "in_range (s + sum_list ss)"
    using s ih(2) nn Cons.prems(2) by (auto simp add: in_range_def)
  then show ?case
    using ih(1) s(1) nn by (simp add: dadd_def clip_in_range)
qed

lemma dot_self_in_range:
  assumes "list_all (\<lambda>d. in_range (d\<^sup>2)) ds"
    and "sum_list (map power2 ds) < overflow_threshold"
  shows "dot (map Fin ds) (map Fin ds) = Inr (Fin (sum_list (map power2 ds)))"
proof -
  have "map2 dmul (map Fin ds) (map Fin ds) = map Fin (map power2 ds)"
    using assms(1)
    by (induction ds) (simp_all add: dmul_def clip_in_range power2_eq_square)
  moreover have "list_all (\<lambda>s. 0 \<le> s \<and> in_range s) (map power2 ds)"
    using assms(1) by (induction ds) simp_all
  ultimately show ?thesis
    using dsum_in_range [OF _ assms(2)] by (simp add: dot_def)
qed

lemma sqdist_vdiff: "sum_list (map power2 (vdiff xs ys)) = sqdist xs ys"
  by (simp add: sqdist_def vdiff_def comp_def)

lemma squared_exp_exact:
  assumes "length xs = length ys" and "squared_exp_in_range t l xs ys"
  shows "squared_exp (Fin t) (Fin l) (map Fin xs) (map Fin ys) =
         Inr (Fin (t\<^sup>2 * exp (- sqdist xs ys / (2 * l\<^sup>2))))"
proof -
  define S where "S = sqdist xs ys"
  from assms(2) have
    diffs: "list_all (\<lambda>p. in_range (fst p - snd p) \<and> in_range ((fst p - snd p)\<^sup>2)) (zip xs ys)"
    and S: "S < overflow_threshold"
    and t: "in_range (t\<^sup>2)" and l: "in_range (l\<^sup>2)" "l \<noteq> 0"
    and l2: "2 * l\<^sup>2 < overflow_threshold"
    and q: "in_range (S / (2 * l\<^sup>2))"
    and e: "in_range (exp (- S / (2 * l\<^sup>2)))"
    and p: "in_range (t\<^sup>2 * exp (- S / (2 * l\<^sup>2)))"
    by (simp_all add: squared_exp_in_range_def S_def)
  have t2: "py_square (Fin t) = Inr (Fin (t\<^sup>2))"
    using py_square_in_range [of t] t by (simp add: power2_eq_square)
  have d: "vsub (map Fin xs) (map Fin ys) = Inr (map Fin (vdiff xs ys))"
    using vsub_in_range [OF assms(1) diffs] .
  have "list_all (\<lambda>d. in_range (d\<^sup>2)) (vdiff xs ys)"
    using diffs by (simp add: vdiff_def list_all_iff)
  then have dd: "dot (map Fin (vdiff xs ys)) (map Fin (vdiff xs ys)) = Inr (Fin S)"
    using dot_self_in_range [of "vdiff xs ys"] S by (simp add: sqdist_vdiff S_def)
  have l2': "py_square (Fin l) = Inr (Fin (l\<^sup>2))"
    using py_square_in_range [of l] l(1) by (simp add: power2_eq_square)
  have lpos: "underflow_threshold < l\<^sup>2"
    using l by (simp add: in_range_def)
  have "in_range (2 * l\<^sup>2)"
    using l2 lpos underflow_threshold_pos by (simp add: in_range_def)
  then have two: "dmul (Fin 2) (Fin (l\<^sup>2)) = Fin (2 * l\<^sup>2)"
    by (simp add: dmul_def clip_in_range)
  have "in_range (- S / (2 * l\<^sup>2))"
    using q in_range_uminus [of "S / (2 * l\<^sup>2)"] by simp
  then have quot: "ddiv (fneg (Fin S)) (Fin (2 * l\<^sup>2)) = Fin (- S / (2 * l\<^sup>2))"
    using l(2) by (simp add: ddiv_def clip_in_range)
  have ex: "exp_math (Fin (- S / (2 * l\<^sup>2))) = Inr (Fin (exp (- S / (2 * l\<^sup>2))))"
    using e by (simp add: clip_in_range) (simp add: in_range_def)
  have prod: "dmul (Fin (t\<^sup>2)) (Fin (exp (- S / (2 * l\<^sup>2)))) = Fin (t\<^sup>2 * exp (- S / (2 * l\<^sup>2)))"
    using p by (simp add: dmul_def clip_in_range)
  show ?thesis
    unfolding squared_exp_def S_def [symmetric]
    by (simp only: t2 d dd l2' two quot ex prod rbind.simps)
qed

lemma in_range_exp_half:
  assumes "c = 1 \<or> c = 4"
  shows "in_range (exp (- (1 / 2)))" and "in_range (c * exp (- (1 / 2)))"
proof -
  define e :: real where "e = exp (- (1 / 2))"
  have lo: "1 / 2 \<le> e"
    using exp_ge_add_one_self [of "- (1 / 2 :: real)"] by (simp add: e_def)
  have hi: "e \<le> 1"
    by (simp add: e_def)
  have u: "underflow_threshold < 1 / 2"
    using underflow_threshold_lt by (rule less_trans) simp
  have o: "4 < overflow_threshold"
    using overflow_threshold_gt by (rule less_trans [rotated]) simp
  have "in_range e"
    unfolding in_range_def using lo hi u o by auto
  then show "in_range (exp (- (1 / 2)))"
    by (simp only: e_def)
  have "in_range (c * e)"
    unfolding in_range_def using assms lo hi u o by auto
  then show "in_range (c * exp (- (1 / 2)))"
    by (simp only: e_def)
qed

lemma in_range_small: "in_range 0" "in_range 1" "in_range 2" "in_range 4" "in_range (1 / 2)"
  using overflow_threshold_gt underflow_threshold_lt
  by (simp_all add: in_range_def overflow_threshold_def underflow_threshold_def)

lemma squared_exp_in_range_examples:
  "squared_exp_in_range 1 1 [0, 0] [0, 0]" "squared_exp_in_range 1 1 [0, 0] [1, 0]"
  "squared_exp_in_range 2 1 [0, 0] [1, 0]"
  using in_range_exp_half [of 1] in_range_exp_half [of 4] in_range_small overflow_threshold_gt_1
  by (simp_all add: squared_exp_in_range_def sqdist_def in_range_uminus overflow_threshold_def)

lemma clip_nonneg_or_inf: "0 \<le> r \<Longrightarrow> nonneg_or_inf (clip r)"
  using overflow_threshold_gt_1 by (simp add: clip_def)

lemma clip_not_NaN: "clip r \<noteq> NaN"
  by (simp add: clip_def)

lemma dmul_self_nonneg: "v \<noteq> NaN \<Longrightarrow> nonneg_or_inf (dmul v v)"
  by (cases v) (simp_all add: dmul_def clip_nonneg_or_inf)

lemma dadd_nonneg: "nonneg_or_inf a \<Longrightarrow> nonneg_or_inf b \<Longrightarrow> nonneg_or_inf (dadd a b)"
  by (cases a; cases b) (simp_all add: dadd_def clip_nonneg_or_inf)

lemma dsum_squares_nonneg:
  "list_all (\<lambda>v. v \<noteq> NaN) d \<Longrightarrow> nonneg_or_inf (dsum (map2 dmul d d))"
  by (induction d) (simp_all add: dadd_nonneg dmul_self_nonneg)

lemma vsub_Fin_not_NaN:
  assumes "length xs = length ys"
  shows "\<exists>d. vsub (map Fin xs) (map Fin ys) = Inr d \<and> list_all (\<lambda>v. v \<noteq> NaN) d"
proof -
  have "list_all (\<lambda>v. v \<noteq> NaN) (map2 dsub (map Fin xs) (map Fin ys))"
    using assms
    by (induction xs ys rule: list_induct2) (simp_all add: dsub_def fsub_def clip_not_NaN)
  then show ?thesis
    using assms by (simp add: vsub_def elementwise_def)
qed

lemma exp_math_nonpos:
  assumes "q \<le> 0"
  shows "\<exists>e. exp_math (Fin q) = Inr (Fin e) \<and> 0 \<le> e \<and> e \<le> 1"
proof -
  have e1: "exp q \<le> 1"
    using assms by simp
  then have lt: "exp q < overflow_threshold"
    using overflow_threshold_gt_1 by linarith
  obtain e where e: "clip (exp q) = Fin e" "0 \<le> e" "e \<le> exp q"
    using clip_nonneg [of "exp q"] lt by auto
  have "e \<le> 1"
    using e(3) e1 by (rule order_trans)
  moreover have "exp_math (Fin q) = Inr (Fin e)"
    using lt e(1) by simp
  ultimately show ?thesis
    using e(2) by blast
qed

lemma squared_exp_nonneg:
  assumes "length xs = length ys" and "t * t < overflow_threshold"
    and "underflow_threshold < l * l" and "2 * (l * l) < overflow_threshold"
  shows "\<exists>v. squared_exp (Fin t) (Fin l) (map Fin xs) (map Fin ys) = Inr v \<and> nonneg_real v"
proof -
  obtain T where T: "clip (t * t) = Fin T" "0 \<le> T" "T \<le> t * t"
    using clip_nonneg [of "t * t"] assms(2) by auto
  have t2: "py_square (Fin t) = Inr (Fin T)"
    using assms(2) T(1) by simp
  obtain d where d: "vsub (map Fin xs) (map Fin ys) = Inr d" "list_all (\<lambda>v. v \<noteq> NaN) d"
    using vsub_Fin_not_NaN [OF assms(1)] by blast
  define dd where "dd = dsum (map2 dmul d d)"
  have dot: "dot d d = Inr dd"
    by (simp add: dot_def dd_def)
  have dd: "nonneg_or_inf dd"
    unfolding dd_def using d(2) by (rule dsum_squares_nonneg)
  have lpos: "0 < l * l"
    using assms(3) underflow_threshold_pos by linarith
  have "in_range (l * l)"
    using assms(3,4) lpos by (simp add: in_range_def)
  then have l2: "py_square (Fin l) = Inr (Fin (l * l))"
    by (rule py_square_in_range)
  have "in_range (2 * (l * l))"
    using assms(3,4) lpos by (simp add: in_range_def)
  then have two: "dmul (Fin 2) (Fin (l * l)) = Fin (2 * (l * l))"
    by (simp add: dmul_def clip_in_range)
  have "\<exists>e. exp_math (ddiv (fneg dd) (Fin (2 * (l * l)))) = Inr (Fin e) \<and> 0 \<le> e \<and> e \<le> 1"
  proof (cases dd)
    case (Fin r)
    with dd have r: "0 \<le> r" by simp
    then have q: "- r / (2 * (l * l)) \<le> 0"
      using lpos by (simp add: divide_nonpos_pos)
    have "l \<noteq> 0"
      using lpos by auto
    then have "ddiv (fneg dd) (Fin (2 * (l * l))) = clip (- r / (2 * (l * l)))"
      using Fin by (simp add: ddiv_def)
    moreover have "clip (- r / (2 * (l * l))) = NInf \<or>
                   (\<exists>q'. clip (- r / (2 * (l * l))) = Fin q' \<and> q' \<le> 0)"
      using q overflow_threshold_gt_1 by (auto simp add: clip_def)
    ultimately show ?thesis
      using exp_math_nonpos by auto
  next
    case PInf
    then have "ddiv (fneg dd) (Fin (2 * (l * l))) = NInf"
      using lpos by (simp add: ddiv_def)
    then show ?thesis by simp
  next
    case NInf
    with dd show ?thesis by simp
  next
    case NaN
    with dd show ?thesis by simp
  qed
  then obtain e where e: "exp_math (ddiv (fneg dd) (Fin (2 * (l * l)))) = Inr (Fin e)"
    "0 \<le> e" "e \<le> 1"
    by blast
  have "T * e \<le> T * 1"
    using e(3) T(2) by (intro mult_left_mono) simp_all
  then have "T * e < overflow_threshold"
    using T(3) assms(2) by simp
  moreover have "0 \<le> T * e"
    using T(2) e(2) by simp
  ultimately obtain p where p: "clip (T * e) = Fin p" "0 \<le> p"
    using clip_nonneg [of "T * e"] by auto
  have "squared_exp (Fin t) (Fin l) (map Fin xs) (map Fin ys) = Inr (dmul (Fin T) (Fin e))"
    unfolding squared_exp_def
    by (simp only: t2 d(1) dot l2 two e(1) rbind.simps)
  then show ?thesis
    using p by (simp add: dmul_def)
qed

lemma clip_abs_bounded:
  assumes "a\<^sup>2 < overflow_threshold"
  shows "\<exists>a'. clip a = Fin a' \<and> a'\<^sup>2 \<le> a\<^sup>2"
proof -
  have "\<bar>a\<bar> < overflow_threshold"
  proof (cases "\<bar>a\<bar> \<le> 1")
    case True
    then show ?thesis
      using overflow_threshold_gt_1 by linarith
  next
    case False
    then have "\<bar>a\<bar> * 1 \<le> \<bar>a\<bar> * \<bar>a\<bar>"
      by (intro mult_left_mono) simp_all
    then have "\<bar>a\<bar> \<le> a\<^sup>2"
      by (simp add: power2_eq_square)
    then show ?thesis
      using assms by linarith
  qed
  then have "clip a = Fin 0 \<or> clip a = Fin a"
    by (auto simp add: clip_def)
  then show ?thesis
    by auto
qed

lemma dot_diff_bounded:
  assumes "length xs = length ys" and "sqdist xs ys < overflow_threshold"
  shows "\<exists>s. dsum (map2 dmul (map2 dsub (map Fin xs) (map Fin ys))
                               (map2 dsub (map Fin xs) (map Fin ys))) = Fin s \<and>
             0 \<le> s \<and> s \<le> sqdist xs ys"
  using assms
proof (induction xs ys rule: list_induct2)
  case Nil
  then show ?case by (simp add: sqdist_def)
next
  case (Cons x xs y ys)
  define a where "a = x - y"
  have split: "sqdist (x # xs) (y # ys) = a\<^sup>2 + sqdist xs ys"
    by (simp add: sqdist_def a_def)
  have tail_nn: "0 \<le> sqdist xs ys"
    unfolding sqdist_def by (rule sum_list_nonneg) auto
  have a_nn: "0 \<le> a\<^sup>2"
    by simp
  have total: "a\<^sup>2 + sqdist xs ys < overflow_threshold"
    using Cons.prems split by simp
  have a2: "a\<^sup>2 < overflow_threshold"
    using total tail_nn by linarith
  have tail: "sqdist xs ys < overflow_threshold"
    using total a_nn by linarith
  obtain s2 where s2: "dsum (map2 dmul (map2 dsub (map Fin xs) (map Fin ys))
                               (map2 dsub (map Fin xs) (map Fin ys))) = Fin s2"
    "0 \<le> s2" "s2 \<le> sqdist xs ys"
    using Cons.IH [OF tail] by blast
  obtain a' where a': "clip a = Fin a'" "a'\<^sup>2 \<le> a\<^sup>2"
    using clip_abs_bounded [OF a2] by blast
  have "a'\<^sup>2 < overflow_threshold"
    using a'(2) a2 by linarith
  then obtain s1 where s1: "clip (a'\<^sup>2) = Fin s1" "0 \<le> s1" "s1 \<le> a'\<^sup>2"
    using clip_nonneg [of "a'\<^sup>2"] by auto
  have "s1 + s2 \<le> a\<^sup>2 + sqdist xs ys"
    using s1(3) a'(2) s2(3) by linarith
  then have le: "s1 + s2 < overflow_threshold"
    using Cons.prems split by linarith
  then obtain s where s: "clip (s1 + s2) = Fin s" "0 \<le> s" "s \<le> s1 + s2"
    using clip_nonneg [of "s1 + s2"] s1(2) s2(2) by auto
  have "dsub (Fin x) (Fin y) = Fin a'"
    using a'(1) by (simp add: dsub_def fsub_def a_def)
  moreover have "dmul (Fin a') (Fin a') = Fin s1"
    using s1(1) by (simp add: dmul_def power2_eq_square)
  moreover have "dadd (Fin s1) (Fin s2) = Fin s"
    using s(1) by (simp add: dadd_def)
  ultimately have "dsum (map2 dmul (map2 dsub (map Fin (x # xs)) (map Fin (y # ys)))
                               (map2 dsub (map Fin (x # xs)) (map Fin (y # ys)))) = Fin s"
    using s2(1) by simp
  moreover have "s \<le> sqdist (x # xs) (y # ys)"
    using s(3) \<open>s1 + s2 \<le> a\<^sup>2 + sqdist xs ys\<close> split by linarith
  ultimately show ?case
    using s(2) by blast
qed

lemma sqrt_le_half: "0 \<le> x \<Longrightarrow> sqrt x \<le> (1 + x) / 2"
proof (rule real_le_lsqrt)
  assume "0 \<le> x"
  then show "0 \<le> (1 + x) / 2" by simp
  have "0 \<le> (1 - x)\<^sup>2" by simp
  then show "x \<le> ((1 + x) / 2)\<^sup>2"
    by (simp add: power2_eq_square field_simps)
qed

lemma matern_bracket_mono:
  "0 \<le> r \<Longrightarrow> r \<le> R \<Longrightarrow> matern_bracket r \<le> matern_bracket R"
  by (simp add: matern_bracket_def add_mono)

lemma matern_bracket_bounded:
  assumes "0 \<le> R" and "5 * R < overflow_threshold"
  shows "matern_bracket R < overflow_threshold"
proof -
  have "sqrt (5 * R) \<le> (1 + 5 * R) / 2"
    using assms(1) by (intro sqrt_le_half) simp
  then have "matern_bracket R \<le> 3 / 2 + (5 / 6) * (5 * R)"
    by (simp add: matern_bracket_def)
  moreover have "9 < overflow_threshold"
    using overflow_threshold_gt by (rule less_trans [rotated]) simp
  ultimately show ?thesis
    using assms(2) by linarith
qed

lemma ARD_matern_nonneg:
  assumes "length xs = length ys" and "t * t < overflow_threshold"
    and "underflow_threshold < l * l" and "l * l < overflow_threshold"
    and "sqdist xs ys < overflow_threshold"
    and "5 * (sqdist xs ys / (l * l)) < overflow_threshold"
    and "t * t * matern_bracket (sqdist xs ys / (l * l)) < overflow_threshold"
  shows "\<exists>v. ARD_matern (Fin t) (Fin l) (map Fin xs) (map Fin ys) = Inr v \<and> nonneg_real v"
proof -
  define R where "R = sqdist xs ys / (l * l)"
  define d where "d = map2 dsub (map Fin xs) (map Fin ys)"
  have lpos: "0 < l * l"
    using assms(3) underflow_threshold_pos by linarith
  have S_nn: "0 \<le> sqdist xs ys"
    unfolding sqdist_def by (rule sum_list_nonneg) auto
  have R_nn: "0 \<le> R"
    using S_nn lpos by (simp add: R_def)
  have B_lt: "matern_bracket R < overflow_threshold"
    using matern_bracket_bounded [OF R_nn] assms(6) by (simp add: R_def)
  have vs: "vsub (map Fin xs) (map Fin ys) = Inr d"
    using assms(1) by (simp add: vsub_def elementwise_def d_def)
  obtain dd where dd: "dsum (map2 dmul d d) = Fin dd" "0 \<le> dd" "dd \<le> sqdist xs ys"
    using dot_diff_bounded [OF assms(1,5)] unfolding d_def by blast
  have dot: "dot d d = Inr (Fin dd)"
    using dd(1) by (simp add: dot_def)
  have "in_range (l * l)"
    using assms(3,4) lpos by (simp add: in_range_def)
  then have l2: "py_square (Fin l) = Inr (Fin (l * l))"
    by (rule py_square_in_range)
  have q_le: "dd / (l * l) \<le> R"
    using dd(3) lpos by (simp add: R_def divide_right_mono)
  have R_lt: "R < overflow_threshold"
    using assms(6) R_nn by (simp add: R_def [symmetric])
  have "0 \<le> dd / (l * l)" "dd / (l * l) < overflow_threshold"
    using dd(2) lpos q_le R_lt by simp_all
  then obtain r where r: "clip (dd / (l * l)) = Fin r" "0 \<le> r" "r \<le> dd / (l * l)"
    using clip_nonneg by blast
  have r_le: "r \<le> R"
    using r(3) q_le by linarith
  have lnz: "l \<noteq> 0"
    using lpos by auto
  have r2: "ddiv (Fin dd) (Fin (l * l)) = Fin r"
    using r(1) lnz by (simp add: ddiv_def)
  obtain T where T: "clip (t * t) = Fin T" "0 \<le> T" "T \<le> t * t"
    using clip_nonneg [of "t * t"] assms(2) by auto
  have t2: "py_square (Fin t) = Inr (Fin T)"
    using assms(2) T(1) by simp
  have "0 \<le> 5 * r" "5 * r < overflow_threshold"
    using r(2) r_le assms(6) by (simp_all add: R_def [symmetric])
  then obtain u where u: "clip (5 * r) = Fin u" "0 \<le> u" "u \<le> 5 * r"
    using clip_nonneg by blast
  have five: "dmul (Fin 5) (Fin r) = Fin u"
    using u(1) by (simp add: dmul_def)
  have sq: "sqrt_math (Fin u) = Inr (Fin (sqrt u))"
    using u(2) by simp
  have su_le: "sqrt u \<le> sqrt (5 * R)"
    using u(3) r_le by simp
  have B_parts: "1 + sqrt (5 * R) \<le> matern_bracket R"
    using R_nn by (simp add: matern_bracket_def)
  have su_nn: "0 \<le> sqrt u"
    using u(2) by simp
  have "0 \<le> 1 + sqrt u"
    using su_nn by linarith
  moreover have "1 + sqrt u < overflow_threshold"
    using su_le B_parts B_lt by linarith
  ultimately obtain a where a: "clip (1 + sqrt u) = Fin a" "0 \<le> a" "a \<le> 1 + sqrt u"
    using clip_nonneg by blast
  have one: "dadd (Fin 1) (Fin (sqrt u)) = Fin a"
    using a(1) by (simp add: dadd_def)
  have "0 \<le> 5 / 3 * r" "5 / 3 * r < overflow_threshold"
    using r(2) r_le R_lt assms(6) by (simp_all add: R_def [symmetric])
  then obtain m where m: "clip (5 / 3 * r) = Fin m" "0 \<le> m" "m \<le> 5 / 3 * r"
    using clip_nonneg by blast
  have third: "dmul (Fin (5 / 3)) (Fin r) = Fin m"
    using m(1) by (simp add: dmul_def)
  have am_le: "a + m \<le> matern_bracket R"
    unfolding matern_bracket_def using a(3) su_le m(3) r_le by linarith
  then have "0 \<le> a + m" "a + m < overflow_threshold"
    using a(2) m(2) B_lt by simp_all
  then obtain b where b: "clip (a + m) = Fin b" "0 \<le> b" "b \<le> a + m"
    using clip_nonneg by blast
  have bracket: "dadd (Fin a) (Fin m) = Fin b"
    using b(1) by (simp add: dadd_def)
  have b_le: "b \<le> matern_bracket R"
    using b(3) am_le by linarith
  have B_nn: "0 \<le> matern_bracket R"
    using b(2) b_le by linarith
  have "T * b \<le> t * t * matern_bracket R"
    using T(2,3) b(2) b_le by (intro mult_mono) simp_all
  then have "0 \<le> T * b" "T * b < overflow_threshold"
    using T(2) b(2) assms(7) by (simp_all add: R_def [symmetric])
  then obtain p where p: "clip (T * b) = Fin p" "0 \<le> p" "p \<le> T * b"
    using clip_nonneg by blast
  have prod: "dmul (Fin T) (Fin b) = Fin p"
    using p(1) by (simp add: dmul_def)
  obtain e where e: "exp_math (Fin (- sqrt u)) = Inr (Fin e)" "0 \<le> e" "e \<le> 1"
    using exp_math_nonpos [of "- sqrt u"] u(2) by auto
  have "p * e \<le> p * 1"
    using e(3) p(2) by (intro mult_left_mono) simp_all
  moreover have "p < overflow_threshold"
    using p(3) \<open>T * b < overflow_threshold\<close> by linarith
  ultimately have "0 \<le> p * e" "p * e < overflow_threshold"
    using p(2) e(2) by simp_all
  then obtain v where v: "clip (p * e) = Fin v" "0 \<le> v"
    using clip_nonneg [of "p * e"] by auto
  have final: "dmul (Fin p) (Fin e) = Fin v"
    using v(1) by (simp add: dmul_def)
  have "ARD_matern (Fin t) (Fin l) (map Fin xs) (map Fin ys) = Inr (Fin v)"
    unfolding ARD_matern_def
    by (simp only: vs dot l2 r2 t2 five sq one third bracket prod fneg.simps e(1) final
        rbind.simps Let_def)
  then show ?thesis
    using v(2) by simp
qed

lemma clip_small: "r = 0 \<or> (1 \<le> \<bar>r\<bar> \<and> \<bar>r\<bar> \<le> 2 ^ 1000) \<Longrightarrow> clip r = Fin r"
proof (rule clip_in_range)
  assume r: "r = 0 \<or> (1 \<le> \<bar>r\<bar> \<and> \<bar>r\<bar> \<le> 2 ^ 1000)"
  have "underflow_threshold < 1"
    using underflow_threshold_lt by (rule less_trans) simp
  with r show "in_range r"
    using overflow_threshold_gt by (auto simp add: in_range_def)
qed

lemma double_ops_Fin:
  "dadd (Fin a) (Fin b) = clip (a + b)"
  "dsub (Fin a) (Fin b) = clip (a - b)"
  "dmul (Fin a) (Fin b) = clip (a * b)"
  by (simp_all add: dadd_def dsub_def dmul_def fsub_def)

lemma trivial_examples:
  "trivial (Fin 1) [Fin 1, Fin 2] [Fin 1, Fin 0] = Inr (Fin 1)"
  "trivial (Fin 1) [Fin 1, Fin 2] [Fin 0, Fin 1] = Inr (Fin 2)"
  "trivial (Fin 1) [Fin 1, Fin 2] [Fin 1, Fin 1] = Inr (Fin 3)"
  "trivial (Fin 1) [Fin 1] [Fin 1] = Inr (Fin 1)"
  "trivial (Fin 1) [Fin 1] [Fin 3] = Inr (Fin 3)"
  "trivial (Fin 1) [Fin 2] [Fin 3] = Inr (Fin 6)"
  by (simp_all add: trivial_def dot_def double_ops_Fin clip_small)

lemma squared_exp_unit_returns:
  assumes "length xs = length ys"
  shows "\<exists>v. squared_exp (Fin 1) (Fin 1) (map Fin xs) (map Fin ys) = Inr v"
proof -
  have "(1 :: real) * 1 < overflow_threshold" "underflow_threshold < (1 :: real) * 1"
    "2 * ((1 :: real) * 1) < overflow_threshold"
    using overflow_threshold_gt underflow_threshold_lt
    by (simp_all add: overflow_threshold_def underflow_threshold_def)
  from squared_exp_nonneg [OF assms this] show ?thesis
    by blast
qed

lemma squared_exp_unit_same:
  "squared_exp (Fin 1) (Fin 1) (map Fin xs) (map Fin xs) = Inr (Fin 1)"
proof -
  have "(1 :: real) * 1 < overflow_threshold" "underflow_threshold < (1 :: real) * 1"
    using overflow_threshold_gt underflow_threshold_lt
    by (simp_all add: overflow_threshold_def underflow_threshold_def)
  from squared_exp_same [OF this(1) this(2) this(1), of xs] show ?thesis
    by (simp add: clip_1)
qed

section \<open>Covariance lemmas\<close>

lemma fold_setitem_upt:
  "n \<le> length M \<Longrightarrow> fold (\<lambda>i M. M[i := f i]) [0..<n] M = map f [0..<n] @ drop n M"
proof (induction n)
  case 0
  then show ?case by simp
next
  case (Suc n)
  then have n: "n < length M" by simp
  have "fold (\<lambda>i M. M[i := f i]) [0..<Suc n] M = (map f [0..<n] @ drop n M)[n := f n]"
    using Suc by simp
  also have "\<dots> = map f [0..<n] @ (drop n M)[0 := f n]"
    by (simp add: list_update_append)
  also have "drop n M = M ! n # drop (Suc n) M"
    using n by (simp add: Cons_nth_drop_Suc)
  finally show ?case by simp
qed

lemma fast_loop_fold:
  assumes "\<forall>i\<in>set rows. i < length X1 \<and> i < length X2 \<and> i < length M \<and> kern (X1 ! i) (X2 ! i) = Inr (f i)"
  shows "fast_loop kern X1 X2 rows M = Inr (fold (\<lambda>i M. M[i := f i]) rows M)"
  using assms
proof (induction rows arbitrary: M)
  case Nil
  then show ?case by simp
next
  case (Cons row rest)
  have "fast_loop kern X1 X2 (row # rest) M = fast_loop kern X1 X2 rest (M[row := f row])"
    using Cons.prems by (simp add: getrow_def setitem_def)
  also have "\<dots> = Inr (fold (\<lambda>i M. M[i := f i]) rest (M[row := f row]))"
    by (rule Cons.IH) (use Cons.prems in simp)
  finally show ?case by simp
qed



lemma inner_loop_fold:
  assumes "row1 < length X1" and "row1 < length M"
    and "\<forall>j\<in>set cols. j < length X2 \<and> j < length (M ! row1) \<and> kern (X1 ! row1) (X2 ! j) = Inr (f j)"
  shows "inner_loop kern X1 X2 row1 cols M =
         Inr (M[row1 := fold (\<lambda>j r. r[j := f j]) cols (M ! row1)])"
  using assms(2,3)
proof (induction cols arbitrary: M)
  case Nil
  then show ?case by simp
next
  case (Cons j rest)
  let ?M' = "M[row1 := (M ! row1)[j := f j]]"
  have step: "inner_loop kern X1 X2 row1 (j # rest) M = inner_loop kern X1 X2 row1 rest ?M'"
    using Cons.prems assms(1) by (simp add: getrow_def setitem2_def)
  have row: "?M' ! row1 = (M ! row1)[j := f j]"
    using Cons.prems(1) by simp
  have "inner_loop kern X1 X2 row1 rest ?M' =
        Inr (?M'[row1 := fold (\<lambda>j r. r[j := f j]) rest (?M' ! row1)])"
    by (rule Cons.IH) (use Cons.prems row in simp_all)
  then show ?case
    using step row by simp
qed

lemma inner_loop_row:
  assumes "row1 < length X1" and "row1 < length M" and "length (M ! row1) = length X2"
    and "\<forall>j<length X2. kern (X1 ! row1) (X2 ! j) = Inr (f j)"
  shows "inner_loop kern X1 X2 row1 [0..<length X2] M = Inr (M[row1 := map f [0..<length X2]])"
proof -
  have "inner_loop kern X1 X2 row1 [0..<length X2] M =
        Inr (M[row1 := fold (\<lambda>j r. r[j := f j]) [0..<length X2] (M ! row1)])"
    by (rule inner_loop_fold) (use assms in simp_all)
  moreover have "fold (\<lambda>j r. r[j := f j]) [0..<length X2] (M ! row1) = map f [0..<length X2]"
    using fold_setitem_upt [of "length X2" "M ! row1" f] assms(3) by simp
  ultimately show ?thesis by simp
qed

lemma outer_loop_fold:
  assumes "\<forall>i\<in>set rows. i < length X1 \<and> i < length M"
    and "\<forall>r\<in>set M. length r = length X2"
    and "\<forall>i\<in>set rows. \<forall>j<length X2. kern (X1 ! i) (X2 ! j) = Inr (g i j)"
  shows "outer_loop kern X1 X2 rows M =
         Inr (fold (\<lambda>i M. M[i := map (g i) [0..<length X2]]) rows M)"
  using assms
proof (induction rows arbitrary: M)
  case Nil
  then show ?case by simp
next
  case (Cons i rest)
  let ?M' = "M[i := map (g i) [0..<length X2]]"
  have i: "i < length X1" "i < length M"
    using Cons.prems(1) by simp_all
  have "length (M ! i) = length X2"
    using Cons.prems(2) i(2) by simp
  then have inner: "inner_loop kern X1 X2 i [0..<length X2] M = Inr ?M'"
    using inner_loop_row [of i X1 M X2 kern "g i"] i Cons.prems(3) by simp
  have rows': "\<forall>r\<in>set ?M'. length r = length X2"
  proof
    fix r assume "r \<in> set ?M'"
    then have "r \<in> insert (map (g i) [0..<length X2]) (set M)"
      using set_update_subset_insert [of M i] by blast
    then show "length r = length X2"
      using Cons.prems(2) by auto
  qed
  have "outer_loop kern X1 X2 rest ?M' =
        Inr (fold (\<lambda>i M. M[i := map (g i) [0..<length X2]]) rest ?M')"
    by (rule Cons.IH) (use Cons.prems rows' in simp_all)
  then show ?case
    using inner by simp
qed

lemma covariance_full_rows:
  assumes "\<forall>i<length X1. \<forall>j<length X2. kern (X1 ! i) (X2 ! j) = Inr (g i j)"
  shows "outer_loop kern X1 X2 [0..<length X1] (zeros2 (length X1) (length X2)) =
         Inr (map (\<lambda>i. map (g i) [0..<length X2]) [0..<length X1])"
proof -
  let ?Z = "zeros2 (length X1) (length X2)"
  have "outer_loop kern X1 X2 [0..<length X1] ?Z =
        Inr (fold (\<lambda>i M. M[i := map (g i) [0..<length X2]]) [0..<length X1] ?Z)"
    by (rule outer_loop_fold) (use assms in \<open>simp_all add: zeros2_def\<close>)
  moreover have "fold (\<lambda>i M. M[i := map (g i) [0..<length X2]]) [0..<length X1] ?Z =
                 map (\<lambda>i. map (g i) [0..<length X2]) [0..<length X1]"
    using fold_setitem_upt [of "length X1" ?Z "\<lambda>i. map (g i) [0..<length X2]"]
    by (simp add: zeros2_def)
  ultimately show ?thesis by simp
qed

lemma covariance_fast_rows:
  assumes "length X2 \<le> length X1"
    and "\<forall>i<length X2. kern (X1 ! i) (X2 ! i) = Inr (f i)"
  shows "fast_loop kern X1 X2 [0..<length X2] (zeros (length X1)) =
         Inr (map f [0..<length X2] @ zeros (length X1 - length X2))"
proof -
  have "fast_loop kern X1 X2 [0..<length X2] (zeros (length X1)) =
        Inr (fold (\<lambda>i M. M[i := f i]) [0..<length X2] (zeros (length X1)))"
    by (rule fast_loop_fold) (use assms in \<open>simp_all add: zeros_def\<close>)
  moreover have "fold (\<lambda>i M. M[i := f i]) [0..<length X2] (zeros (length X1)) =
                 map f [0..<length X2] @ zeros (length X1 - length X2)"
    using fold_setitem_upt [of "length X2" "zeros (length X1)" f] assms(1)
    by (simp add: zeros_def)
  ultimately show ?thesis by simp
qed



section \<open>Acquisition lemmas\<close>

lemma Phi_zero: "Phi 0 = 1 / 2"
  by (simp add: Phi_def)

lemma phi_pos: "0 < phi z"
  by (simp add: phi_def)

lemma elementwise_same_length:
  "length a = length b \<Longrightarrow> elementwise f a b = Inr (map2 f a b)"
  by (simp add: elementwise_def)

lemma length_select:
  "length xs = length bs \<Longrightarrow> length (select xs bs) = length (filter (\<lambda>b. b) bs)"
  by (induction xs bs rule: list_induct2) simp_all

lemma EI_values:
  "length m = length s \<Longrightarrow>
   map2 fadd
     (map2 fmul (map (\<lambda>a. fsub a ymax) m) (map norm_cdf (map2 fdiv (map (\<lambda>a. fsub a ymax) m) s)))
     (map2 fmul s (map norm_pdf (map2 fdiv (map (\<lambda>a. fsub a ymax) m) s))) =
   map2 (EI_point ymax) m s"
  by (induction m s rule: list_induct2) (simp_all add: EI_point_def Let_def)

lemma place_select_length:
  "length (place es bs vs) = length es"
  by (induction es bs vs rule: place.induct) simp_all

lemma place_select_nth:
  assumes "length es = length bs" and "length bs = length xs" and "length xs = length ys"
    and "i < length es"
  shows "place es bs (map2 h (select xs bs) (select ys bs)) ! i =
         (if bs ! i then h (xs ! i) (ys ! i) else es ! i)"
  using assms
proof (induction es bs xs ys arbitrary: i rule: list_induct4)
  case Nil
  then show ?case by simp
next
  case (Cons e es b bs x xs y ys)
  show ?case
  proof (cases i)
    case 0
    then show ?thesis by (cases b) simp_all
  next
    case (Suc j)
    with Cons.prems have "j < length es" by simp
    then have "place es bs (map2 h (select xs bs) (select ys bs)) ! j =
               (if bs ! j then h (xs ! j) (ys ! j) else es ! j)"
      by (rule Cons.IH)
    with Suc show ?thesis by (cases b) simp_all
  qed
qed

lemma full_EI_result:
  assumes "length var = length mean"
  shows "full_EI ymax mean var =
         Inr (place (zeros (length mean)) (map fpos (map sqrt_numpy var))
               (map2 (EI_point ymax) (select mean (map fpos (map sqrt_numpy var)))
                  (select (map sqrt_numpy var) (map fpos (map sqrt_numpy var)))))"
proof -
  define sd where "sd = map sqrt_numpy var"
  define sel where "sel = map fpos sd"
  define m where "m = select mean sel"
  define s where "s = select sd sel"
  define d where "d = map (\<lambda>a. fsub a ymax) m"
  define Z where "Z = map2 fdiv d s"
  have ls: "length sel = length mean" "length sel = length sd"
    using assms by (simp_all add: sel_def sd_def)
  have lm: "length m = length s"
    using ls by (simp add: m_def s_def length_select)
  have e1: "elementwise fdiv d s = Inr Z"
    using lm by (simp add: elementwise_same_length d_def Z_def)
  have e2: "elementwise fmul d (map norm_cdf Z) = Inr (map2 fmul d (map norm_cdf Z))"
    using lm by (simp add: elementwise_same_length d_def Z_def)
  have e3: "elementwise fmul s (map norm_pdf Z) = Inr (map2 fmul s (map norm_pdf Z))"
    using lm by (simp add: elementwise_same_length d_def Z_def)
  have e4: "elementwise fadd (map2 fmul d (map norm_cdf Z)) (map2 fmul s (map norm_pdf Z)) =
            Inr (map2 (EI_point ymax) m s)"
    using lm EI_values [OF lm, of ymax]
    by (simp add: elementwise_same_length d_def Z_def)
  have "full_EI ymax mean var =
        rbind (bool_index mean sel) (\<lambda>m.
        rbind (bool_index sd sel) (\<lambda>s.
          let d = map (\<lambda>a. fsub a ymax) m in
          rbind (elementwise fdiv d s) (\<lambda>Z.
          rbind (elementwise fmul d (map norm_cdf Z)) (\<lambda>t1.
          rbind (elementwise fmul s (map norm_pdf Z)) (\<lambda>t2.
          rbind (elementwise fadd t1 t2) (\<lambda>vals.
            bool_assign (zeros (length mean)) sel vals))))))"
    by (simp add: full_EI_def Let_def sd_def sel_def)
  also have "\<dots> = bool_assign (zeros (length mean)) sel (map2 (EI_point ymax) m s)"
    using ls e1 e2 e3 e4
    by (simp add: bool_index_def Let_def m_def [symmetric] s_def [symmetric] d_def [symmetric])
  also have "\<dots> = Inr (place (zeros (length mean)) sel (map2 (EI_point ymax) m s))"
    using ls by (simp add: bool_assign_def zeros_def)
  finally show ?thesis
    by (simp add: m_def s_def sel_def sd_def)
qed

lemma fpos_sqrt_numpy: "fpos (sqrt_numpy v) = fpos v"
  by (cases v) simp_all

lemma full_EI_nth:
  assumes "length var = length mean"
  shows "\<exists>ei. full_EI ymax mean var = Inr ei \<and> length ei = length mean \<and>
           (\<forall>i<length mean. ei ! i =
              (if fpos (var ! i) then EI_point ymax (mean ! i) (sqrt_numpy (var ! i)) else Fin 0))"
proof -
  define sd where "sd = map sqrt_numpy var"
  define sel where "sel = map fpos sd"
  define ei where "ei = place (zeros (length mean)) sel
                          (map2 (EI_point ymax) (select mean sel) (select sd sel))"
  have res: "full_EI ymax mean var = Inr ei"
    using full_EI_result [OF assms, of ymax] by (simp add: ei_def sel_def sd_def)
  have len: "length ei = length mean"
    by (simp add: ei_def place_select_length zeros_def)
  have nth: "ei ! i = (if fpos (var ! i) then EI_point ymax (mean ! i) (sqrt_numpy (var ! i)) else Fin 0)"
    if i: "i < length mean" for i
  proof -
    have "ei ! i = (if sel ! i then EI_point ymax (mean ! i) (sd ! i) else zeros (length mean) ! i)"
      unfolding ei_def
      by (rule place_select_nth) (use assms i in \<open>simp_all add: sel_def sd_def zeros_def\<close>)
    then show ?thesis
      using assms i by (simp add: sel_def sd_def zeros_def fpos_sqrt_numpy)
  qed
  show ?thesis
    using res len nth by blast
qed

lemma EI_point_Fin:
  "0 < v \<Longrightarrow> EI_point (Fin y) (Fin m) (Fin (sqrt v)) = Fin (EI_formula y m v)"
  by (simp add: EI_point_def EI_formula_def fsub_def Let_def)

theorem covariance_full:
  assumes "\<forall>i<length (as_rows A). \<forall>j<length (as_rows B).
             \<exists>v. kern (as_rows A ! i) (as_rows B ! j) = Inr v"
  shows "\<exists>M. covariance A B kern False = Inr (Arr2 M) \<and>
           length M = length (as_rows A) \<and>
           (\<forall>i<length (as_rows A). length (M ! i) = length (as_rows B) \<and>
              (\<forall>j<length (as_rows B). kern (as_rows A ! i) (as_rows B ! j) = Inr (M ! i ! j)))"
proof -
  define X1 where "X1 = as_rows A"
  define X2 where "X2 = as_rows B"
  define g where "g = (\<lambda>i j. kval kern (X1 ! i) (X2 ! j))"
  define M where "M = map (\<lambda>i. map (g i) [0..<length X2]) [0..<length X1]"
  have k: "kern (X1 ! i) (X2 ! j) = Inr (g i j)" if ij: "i < length X1" "j < length X2" for i j
  proof -
    obtain v where "kern (X1 ! i) (X2 ! j) = Inr v"
      using assms ij unfolding X1_def X2_def by blast
    then show ?thesis
      by (simp add: g_def kval_def)
  qed
  have "outer_loop kern X1 X2 [0..<length X1] (zeros2 (length X1) (length X2)) = Inr M"
    unfolding M_def using covariance_full_rows [of X1 X2 kern g] k by simp
  then have full: "covariance A B kern False = Inr (Arr2 M)"
    by (simp add: covariance_def Let_def X1_def X2_def)
  have len: "length M = length X1"
    by (simp add: M_def)
  have entry: "length (M ! i) = length X2 \<and> (\<forall>j<length X2. kern (X1 ! i) (X2 ! j) = Inr (M ! i ! j))"
    if "i < length X1" for i
    using that k [of i] by (simp add: M_def)
  show ?thesis
    using full len entry unfolding X1_def X2_def by blast
qed

theorem covariance_full_witness:
  "\<exists>M. covariance (Arr1 [Fin 1, Fin 2]) (Arr2 [[Fin 1, Fin 0], [Fin 0, Fin 1], [Fin 1, Fin 1]])
          (trivial (Fin 1)) False = Inr (Arr2 M) \<and>
       length M = 1 \<and> length (M ! 0) = 3 \<and>
       M ! 0 ! 0 = Fin 1 \<and> M ! 0 ! 1 = Fin 2 \<and> M ! 0 ! 2 = Fin 3"
proof -
  let ?A = "Arr1 [Fin 1, Fin 2]"
  let ?B = "Arr2 [[Fin 1, Fin 0], [Fin 0, Fin 1], [Fin 1, Fin 1]]"
  have h: "\<forall>i<length (as_rows ?A). \<forall>j<length (as_rows ?B).
             \<exists>v. trivial (Fin 1) (as_rows ?A ! i) (as_rows ?B ! j) = Inr v"
    by (simp add: trivial_examples All_less_Suc)
  from covariance_full [OF h] obtain M where
    res: "covariance ?A ?B (trivial (Fin 1)) False = Inr (Arr2 M)"
    and len: "length M = length (as_rows ?A)"
    and ent: "\<forall>i<length (as_rows ?A). length (M ! i) = length (as_rows ?B) \<and>
              (\<forall>j<length (as_rows ?B).
                 trivial (Fin 1) (as_rows ?A ! i) (as_rows ?B ! j) = Inr (M ! i ! j))"
    by blast
  from ent have "length (M ! 0) = 3" "M ! 0 ! 0 = Fin 1" "M ! 0 ! 1 = Fin 2" "M ! 0 ! 2 = Fin 3"
    by (simp_all add: trivial_examples All_less_Suc numeral_3_eq_3 numeral_2_eq_2)
  with res len show ?thesis
    by simp
qed

text \<open>
  Claim C5. For a point set A of N rows and a kernel that returns a number on every pair
  of rows of A, \<open>covariance\<close> with \<open>fast = True\<close> on (A, A) returns a vector of length N
  whose entry i is the kernel's value on (row i, row i), and that is entry (i, i) of the
  matrix \<open>covariance\<close> returns on (A, A) with \<open>fast = False\<close>.
\<close>

theorem covariance_fast_diagonal:
  assumes "\<forall>i<length (as_rows A). \<forall>j<length (as_rows A).
             \<exists>v. kern (as_rows A ! i) (as_rows A ! j) = Inr v"
  shows "\<exists>V M. covariance A A kern True = Inr (Arr1 V) \<and>
           covariance A A kern False = Inr (Arr2 M) \<and>
           length V = length (as_rows A) \<and>
           (\<forall>i<length (as_rows A).
              kern (as_rows A ! i) (as_rows A ! i) = Inr (V ! i) \<and> V ! i = M ! i ! i)"
proof -
  define X where "X = as_rows A"
  define g where "g = (\<lambda>i j. kval kern (X ! i) (X ! j))"
  define M where "M = map (\<lambda>i. map (g i) [0..<length X]) [0..<length X]"
  define V where "V = map (\<lambda>i. g i i) [0..<length X]"
  have k: "kern (X ! i) (X ! j) = Inr (g i j)" if ij: "i < length X" "j < length X" for i j
  proof -
    obtain v where "kern (X ! i) (X ! j) = Inr v"
      using assms ij unfolding X_def by blast
    then show ?thesis
      by (simp add: g_def kval_def)
  qed
  have "outer_loop kern X X [0..<length X] (zeros2 (length X) (length X)) = Inr M"
    unfolding M_def using covariance_full_rows [of X X kern g] k by simp
  then have full: "covariance A A kern False = Inr (Arr2 M)"
    by (simp add: covariance_def Let_def X_def)
  have "fast_loop kern X X [0..<length X] (zeros (length X)) =
        Inr (map (\<lambda>i. g i i) [0..<length X] @ zeros (length X - length X))"
    using covariance_fast_rows [of X X kern "\<lambda>i. g i i"] k by simp
  then have fast: "covariance A A kern True = Inr (Arr1 V)"
    by (simp add: covariance_def Let_def zeros_def X_def V_def)
  have len: "length V = length X"
    by (simp add: V_def)
  have diag: "kern (X ! i) (X ! i) = Inr (V ! i) \<and> V ! i = M ! i ! i" if "i < length X" for i
    using that k [of i i] by (simp add: V_def M_def)
  show ?thesis
    using full fast len diag unfolding X_def by blast
qed

theorem covariance_fast_diagonal_witness:
  "\<exists>V M. covariance (Arr2 [[Fin 0, Fin 0], [Fin 1, Fin 0]]) (Arr2 [[Fin 0, Fin 0], [Fin 1, Fin 0]])
            (squared_exp (Fin 1) (Fin 1)) True = Inr (Arr1 V) \<and>
          covariance (Arr2 [[Fin 0, Fin 0], [Fin 1, Fin 0]]) (Arr2 [[Fin 0, Fin 0], [Fin 1, Fin 0]])
            (squared_exp (Fin 1) (Fin 1)) False = Inr (Arr2 M) \<and>
          length V = 2 \<and> V ! 0 = Fin 1 \<and> V ! 1 = Fin 1 \<and> M ! 0 ! 0 = Fin 1 \<and> M ! 1 ! 1 = Fin 1"
proof -
  let ?A = "Arr2 [[Fin 0, Fin 0], [Fin 1, Fin 0]]"
  let ?k = "squared_exp (Fin 1) (Fin 1)"
  have same: "?k [Fin 0, Fin 0] [Fin 0, Fin 0] = Inr (Fin 1)" "?k [Fin 1, Fin 0] [Fin 1, Fin 0] = Inr (Fin 1)"
    using squared_exp_unit_same [of "[0, 0]"] squared_exp_unit_same [of "[1, 0]"] by simp_all
  have other: "\<exists>v. ?k [Fin 0, Fin 0] [Fin 1, Fin 0] = Inr v" "\<exists>v. ?k [Fin 1, Fin 0] [Fin 0, Fin 0] = Inr v"
    using squared_exp_unit_returns [of "[0, 0]" "[1, 0]"] squared_exp_unit_returns [of "[1, 0]" "[0, 0]"]
    by simp_all
  have h: "\<forall>i<length (as_rows ?A). \<forall>j<length (as_rows ?A).
             \<exists>v. ?k (as_rows ?A ! i) (as_rows ?A ! j) = Inr v"
    using same other by (simp add: All_less_Suc)
  from covariance_fast_diagonal [OF h] obtain V M where
    fast: "covariance ?A ?A ?k True = Inr (Arr1 V)"
    and full: "covariance ?A ?A ?k False = Inr (Arr2 M)"
    and len: "length V = length (as_rows ?A)"
    and ent: "\<forall>i<length (as_rows ?A).
              ?k (as_rows ?A ! i) (as_rows ?A ! i) = Inr (V ! i) \<and> V ! i = M ! i ! i"
    by blast
  from ent have "V ! 0 = Fin 1" "V ! 1 = Fin 1" "M ! 0 ! 0 = Fin 1" "M ! 1 ! 1 = Fin 1"
    by (auto simp add: same All_less_Suc)
  with fast full len show ?thesis
    by simp
qed




section \<open>Claims about the kernels\<close>

text \<open>
  Claim C6, as stated, is for every \<open>t\<close> and \<open>l\<close>. With \<open>t = 1e200\<close> the square \<open>t**2\<close>
  raises OverflowError and nothing is returned; with \<open>l = 2^-600\<close> the square \<open>l**2\<close> is
  \<open>0.0\<close> and at identical points the exponent is 0/0, so the result is NaN, where the
  formula gives \<open>t\<^sup>2\<close>.
\<close>

theorem squared_exp_formula_counterexample:
  "squared_exp (Fin (10 ^ 200)) (Fin 1) [Fin 0] [Fin 0] = Inl OverflowError \<and>
   squared_exp (Fin 1) (Fin (1 / 2 ^ 600)) [Fin 0] [Fin 0] = Inr NaN"
proof -
  have big: "py_square (Fin (10 ^ 200)) = Inl OverflowError"
    by (simp add: overflow_threshold_def)
  have one: "py_square (Fin 1) = Inr (Fin 1)"
    using overflow_threshold_gt_1 by (simp add: clip_1)
  have small: "py_square (Fin (1 / 2 ^ 600)) = Inr (Fin 0)"
    by (simp add: clip_def overflow_threshold_def underflow_threshold_def)
  have v: "vsub [Fin 0] [Fin 0] = Inr [Fin 0]"
    using vsub_same [of "[0]"] by simp
  have d: "dot [Fin 0] [Fin 0] = Inr (Fin 0)"
    using dot_zeros [of "[0 :: real]"] by simp
  have m: "dmul (Fin 2) (Fin 0) = Fin 0"
    by (simp add: dmul_def clip_0)
  have q: "ddiv (Fin 0) (Fin 0) = NaN"
    by (simp add: ddiv_def)
  have n: "dmul x NaN = NaN" for x
    by (cases x; simp add: dmul_def)
  have "squared_exp (Fin (10 ^ 200)) (Fin 1) [Fin 0] [Fin 0] = Inl OverflowError"
    by (simp only: squared_exp_def big rbind.simps)
  moreover have "squared_exp (Fin 1) (Fin (1 / 2 ^ 600)) [Fin 0] [Fin 0] = Inr NaN"
    by (simp only: squared_exp_def one small v d m q n rbind.simps fneg.simps minus_zero exp_math.simps)
  ultimately show ?thesis by simp
qed

text \<open>
  Claim C6, amended. For two points of equal dimension with finite coordinates and
  finite \<open>t\<close> and \<open>l\<close>, when no intermediate result of the computation overflows or
  underflows to zero, \<open>squared_exp\<close> returns \<open>t\<^sup>2 exp (- |x1 - x2|\<^sup>2 / (2 l\<^sup>2))\<close>, each
  operation taken as exact within the range. With \<open>t = 1\<close> and \<open>l = 1\<close>, the value at
  ([0,0], [0,0]) is 1 and the value at ([0,0], [1,0]) is \<open>exp (- 1/2)\<close>.
\<close>

theorem squared_exp_formula:
  "(length xs = length ys \<and> squared_exp_in_range t l xs ys \<longrightarrow>
      squared_exp (Fin t) (Fin l) (map Fin xs) (map Fin ys) =
      Inr (Fin (t\<^sup>2 * exp (- sqdist xs ys / (2 * l\<^sup>2))))) \<and>
   squared_exp (Fin 1) (Fin 1) [Fin 0, Fin 0] [Fin 0, Fin 0] = Inr (Fin 1) \<and>
   squared_exp (Fin 1) (Fin 1) [Fin 0, Fin 0] [Fin 1, Fin 0] = Inr (Fin (exp (- (1 / 2))))"
proof (intro conjI impI)
  assume "length xs = length ys \<and> squared_exp_in_range t l xs ys"
  then show "squared_exp (Fin t) (Fin l) (map Fin xs) (map Fin ys) =
      Inr (Fin (t\<^sup>2 * exp (- sqdist xs ys / (2 * l\<^sup>2))))"
    using squared_exp_exact by blast
next
  show "squared_exp (Fin 1) (Fin 1) [Fin 0, Fin 0] [Fin 0, Fin 0] = Inr (Fin 1)"
    using squared_exp_exact [of "[0, 0]" "[0, 0]" 1 1] squared_exp_in_range_examples(1)
    by (simp add: sqdist_def)
next
  show "squared_exp (Fin 1) (Fin 1) [Fin 0, Fin 0] [Fin 1, Fin 0] = Inr (Fin (exp (- (1 / 2))))"
    using squared_exp_exact [of "[0, 0]" "[1, 0]" 1 1] squared_exp_in_range_examples(2)
    by (simp add: sqdist_def)
qed

theorem squared_exp_formula_witness:
  "squared_exp (Fin 2) (Fin 1) [Fin 0, Fin 0] [Fin 1, Fin 0] = Inr (Fin (4 * exp (- (1 / 2))))"
proof -
  have "length [0, 0 :: real] = length [1, 0 :: real] \<and> squared_exp_in_range 2 1 [0, 0] [1, 0]"
    using squared_exp_in_range_examples(3) by simp
  with squared_exp_formula [of "[0, 0]" "[1, 0]" 2 1]
  have "squared_exp (Fin 2) (Fin 1) (map Fin [0, 0]) (map Fin [1, 0]) =
        Inr (Fin (2\<^sup>2 * exp (- sqdist [0, 0] [1, 0] / (2 * 1\<^sup>2))))"
    by blast
  then show ?thesis
    by (simp add: sqdist_def)
qed

text \<open>
  Claim C7, as stated, is for every \<open>l\<close>. With \<open>l = 0\<close> the exponent of
  \<open>squared_exp\<close> and the \<open>r2\<close> of \<open>ARD_matern\<close> are 0/0 at identical arguments, and both
  kernels return NaN, not \<open>t\<^sup>2\<close>.
\<close>

theorem kernel_self_counterexample:
  "squared_exp (Fin 1) (Fin 0) [Fin 0] [Fin 0] = Inr NaN \<and>
   ARD_matern (Fin 1) (Fin 0) [Fin 0] [Fin 0] = Inr NaN"
proof -
  have sq: "py_square (Fin 1) = Inr (Fin 1)" "py_square (Fin 0) = Inr (Fin 0)"
    using overflow_threshold_gt_1 by (simp_all add: clip_1 clip_0)
  have v: "vsub [Fin 0] [Fin 0] = Inr [Fin 0]"
    using vsub_same [of "[0]"] by simp
  have d: "dot [Fin 0] [Fin 0] = Inr (Fin 0)"
    using dot_zeros [of "[0 :: real]"] by simp
  have m: "dmul (Fin 2) (Fin 0) = Fin 0"
    by (simp add: dmul_def clip_0)
  have q: "ddiv (Fin 0) (Fin 0) = NaN"
    by (simp add: ddiv_def)
  have n: "dmul x NaN = NaN" "dmul NaN x = NaN" "dadd x NaN = NaN" for x
    by (cases x; simp add: dmul_def dadd_def)+
  have "squared_exp (Fin 1) (Fin 0) [Fin 0] [Fin 0] = Inr NaN"
    by (simp add: squared_exp_def sq v d m q n del: py_square.simps)
  moreover have "ARD_matern (Fin 1) (Fin 0) [Fin 0] [Fin 0] = Inr NaN"
    by (simp add: ARD_matern_def sq v d q n Let_def del: py_square.simps)
  ultimately show ?thesis by simp
qed

text \<open>
  Claim C7, amended. For every point with finite coordinates and every finite \<open>t\<close> and
  \<open>l\<close> such that \<open>t**2\<close> does not overflow and \<open>l**2\<close> neither overflows nor underflows to
  zero, \<open>squared_exp(x, x)\<close> and \<open>ARD_matern(x, x)\<close> both equal the double \<open>t**2\<close> that the
  program computes, which is \<open>t\<^sup>2\<close> when that is within the range.
\<close>

theorem kernel_self:
  assumes "t * t < overflow_threshold" and "underflow_threshold < l * l"
    and "l * l < overflow_threshold"
  shows "py_square (Fin t) = Inr (clip (t * t)) \<and>
         squared_exp (Fin t) (Fin l) (map Fin xs) (map Fin xs) = Inr (clip (t * t)) \<and>
         ARD_matern (Fin t) (Fin l) (map Fin xs) (map Fin xs) = Inr (clip (t * t)) \<and>
         (in_range (t * t) \<longrightarrow> clip (t * t) = Fin (t\<^sup>2))"
  using assms squared_exp_same [OF assms] ARD_matern_same [OF assms]
  by (simp add: clip_in_range power2_eq_square)

theorem kernel_self_witness:
  "squared_exp (Fin 2) (Fin 1) [Fin 3, Fin 4] [Fin 3, Fin 4] = Inr (Fin 4) \<and>
   ARD_matern (Fin 2) (Fin 1) [Fin 3, Fin 4] [Fin 3, Fin 4] = Inr (Fin 4)"
proof -
  have h: "(2 :: real) * 2 < overflow_threshold" "underflow_threshold < (1 :: real) * 1"
    "(1 :: real) * 1 < overflow_threshold" "in_range (2 * 2)"
    by (simp_all add: overflow_threshold_def underflow_threshold_def in_range_def)
  from kernel_self [OF h(1-3), of "[3, 4]"] h(4) show ?thesis
    by simp
qed

text \<open>
  Claim C8, as stated, says that all three kernels return a nonnegative real. \<open>trivial\<close>
  is a scaled dot product and is negative when \<open>t\<close> and the dot product differ in sign.
\<close>

theorem kernel_nonneg_counterexample:
  "trivial (Fin 1) [Fin 1] [Fin (- 1)] = Inr (Fin (- 1)) \<and> \<not> nonneg_real (Fin (- 1))"
proof -
  have "in_range (- 1)" "in_range (1 * - 1)" "in_range (- 1 + 0)"
    using in_range_small(2) by (simp_all add: in_range_uminus)
  then have "clip (- 1) = Fin (- 1)"
    using clip_in_range by blast
  then show ?thesis
    by (simp add: trivial_def dot_def dmul_def dadd_def)
qed

text \<open>
  Claim C8, amended. For two points of equal dimension with finite coordinates and
  finite \<open>t\<close> and \<open>l\<close> such that \<open>t**2\<close> does not overflow, \<open>l**2\<close> does not underflow to zero
  and \<open>2 l**2\<close> does not overflow, \<open>squared_exp\<close> returns a nonnegative real; so does
  \<open>ARD_matern\<close> when in addition the squared distance, \<open>5 r2\<close> and \<open>t\<^sup>2\<close> times the bracket
  \<open>1 + sqrt(5 r2) + (5/3) r2\<close> do not overflow, with \<open>r2 = |x1 - x2|\<^sup>2 / l\<^sup>2\<close>.
\<close>

theorem kernel_nonneg:
  assumes "length xs = length ys" and "t * t < overflow_threshold"
    and "underflow_threshold < l * l" and "2 * (l * l) < overflow_threshold"
  shows "(\<exists>v. squared_exp (Fin t) (Fin l) (map Fin xs) (map Fin ys) = Inr v \<and> nonneg_real v) \<and>
         (sqdist xs ys < overflow_threshold \<and>
          5 * (sqdist xs ys / (l * l)) < overflow_threshold \<and>
          t * t * matern_bracket (sqdist xs ys / (l * l)) < overflow_threshold \<longrightarrow>
            (\<exists>v. ARD_matern (Fin t) (Fin l) (map Fin xs) (map Fin ys) = Inr v \<and> nonneg_real v))"
proof (intro conjI impI)
  show "\<exists>v. squared_exp (Fin t) (Fin l) (map Fin xs) (map Fin ys) = Inr v \<and> nonneg_real v"
    using assms by (rule squared_exp_nonneg)
next
  assume h: "sqdist xs ys < overflow_threshold \<and>
          5 * (sqdist xs ys / (l * l)) < overflow_threshold \<and>
          t * t * matern_bracket (sqdist xs ys / (l * l)) < overflow_threshold"
  have lpos: "0 < l * l"
    using assms(3) underflow_threshold_pos by linarith
  then have "l * l < overflow_threshold"
    using assms(4) by linarith
  then show "\<exists>v. ARD_matern (Fin t) (Fin l) (map Fin xs) (map Fin ys) = Inr v \<and> nonneg_real v"
    using ARD_matern_nonneg [OF assms(1,2,3)] h by blast
qed

theorem kernel_nonneg_witness:
  "(\<exists>v. squared_exp (Fin 2) (Fin 1) [Fin 0, Fin 0] [Fin 1, Fin 0] = Inr v \<and> nonneg_real v) \<and>
   (\<exists>v. ARD_matern (Fin 2) (Fin 1) [Fin 0, Fin 0] [Fin 1, Fin 0] = Inr v \<and> nonneg_real v)"
proof -
  have s: "sqdist [0, 0] [1, 0] = 1"
    by (simp add: sqdist_def)
  have "sqrt 5 \<le> 3"
    by (rule real_le_lsqrt) simp_all
  then have b: "matern_bracket 1 \<le> 6"
    by (simp add: matern_bracket_def)
  have o: "24 < overflow_threshold"
    using overflow_threshold_gt by (rule less_trans [rotated]) simp
  have h1: "length [0, 0 :: real] = length [1, 0 :: real]" "(2 :: real) * 2 < overflow_threshold"
    "underflow_threshold < (1 :: real) * 1" "2 * ((1 :: real) * 1) < overflow_threshold"
    using o underflow_threshold_lt by (simp_all add: underflow_threshold_def)
  have h2: "sqdist [0, 0] [1, 0] < overflow_threshold \<and>
          5 * (sqdist [0, 0] [1, 0] / (1 * 1)) < overflow_threshold \<and>
          2 * 2 * matern_bracket (sqdist [0, 0] [1, 0] / (1 * 1)) < overflow_threshold"
    using o b by (simp add: s)
  from kernel_nonneg [OF h1] h2 show ?thesis
    by simp
qed

section \<open>Claims about the acquisition functions\<close>

text \<open>
  Claim C1, as stated, is for every mean array, and says that no entry of the result of
  \<open>full_EI\<close> is NaN or infinite. A NaN mean at an index of positive variance goes through
  the formula and comes out as NaN.
\<close>

theorem full_EI_counterexample:
  "full_EI (Fin 0) [NaN] [Fin 1] = Inr [NaN] \<and> \<not> isfinite NaN"
  by (simp add: full_EI_def Let_def bool_index_def bool_assign_def elementwise_def zeros_def fsub_def)

text \<open>
  Claim C1, amended. For mean and variance arrays of the same length and every \<open>ymax\<close>,
  \<open>full_EI\<close> returns a vector of that length in which every index with variance exactly
  0 has the score exactly 0 (whatever the mean there), every index with variance > 0
  has \<open>(mean_i - ymax) cdf(Z_i) + sqrt(variance_i) pdf(Z_i)\<close> with
  \<open>Z_i = (mean_i - ymax) / sqrt(variance_i)\<close>, and an entry is finite whenever \<open>ymax\<close>,
  the mean and the variance at its index are finite.
\<close>

theorem full_EI_zero_variance:
  assumes "length var = length mean"
  shows "\<exists>ei. full_EI ymax mean var = Inr ei \<and> length ei = length mean \<and>
           (\<forall>i<length mean.
              (var ! i = Fin 0 \<longrightarrow> ei ! i = Fin 0) \<and>
              (fpos (var ! i) \<longrightarrow> ei ! i = EI_point ymax (mean ! i) (sqrt_numpy (var ! i))) \<and>
              (\<forall>y m v. ymax = Fin y \<and> mean ! i = Fin m \<and> var ! i = Fin v \<and> 0 < v \<longrightarrow>
                 ei ! i = Fin (EI_formula y m v)) \<and>
              (isfinite ymax \<and> isfinite (mean ! i) \<and> isfinite (var ! i) \<longrightarrow> isfinite (ei ! i)))"
proof -
  obtain ei where res: "full_EI ymax mean var = Inr ei" and len: "length ei = length mean"
    and nth: "\<forall>i<length mean. ei ! i =
              (if fpos (var ! i) then EI_point ymax (mean ! i) (sqrt_numpy (var ! i)) else Fin 0)"
    using full_EI_nth [OF assms, of ymax] by blast
  have "(var ! i = Fin 0 \<longrightarrow> ei ! i = Fin 0) \<and>
        (fpos (var ! i) \<longrightarrow> ei ! i = EI_point ymax (mean ! i) (sqrt_numpy (var ! i))) \<and>
        (\<forall>y m v. ymax = Fin y \<and> mean ! i = Fin m \<and> var ! i = Fin v \<and> 0 < v \<longrightarrow>
           ei ! i = Fin (EI_formula y m v)) \<and>
        (isfinite ymax \<and> isfinite (mean ! i) \<and> isfinite (var ! i) \<longrightarrow> isfinite (ei ! i))"
    if i: "i < length mean" for i
  proof -
    have e: "ei ! i = (if fpos (var ! i) then EI_point ymax (mean ! i) (sqrt_numpy (var ! i)) else Fin 0)"
      using nth i by blast
    have zero: "var ! i = Fin 0 \<longrightarrow> ei ! i = Fin 0"
      using e by simp
    have pos: "fpos (var ! i) \<longrightarrow> ei ! i = EI_point ymax (mean ! i) (sqrt_numpy (var ! i))"
      using e by simp
    have formula: "\<forall>y m v. ymax = Fin y \<and> mean ! i = Fin m \<and> var ! i = Fin v \<and> 0 < v \<longrightarrow>
           ei ! i = Fin (EI_formula y m v)"
      using e by (simp add: EI_point_Fin)
    have finite: "isfinite ymax \<and> isfinite (mean ! i) \<and> isfinite (var ! i) \<longrightarrow> isfinite (ei ! i)"
    proof
      assume "isfinite ymax \<and> isfinite (mean ! i) \<and> isfinite (var ! i)"
      then obtain y m v where "ymax = Fin y" "mean ! i = Fin m" "var ! i = Fin v"
        by (cases ymax; cases "mean ! i"; cases "var ! i") simp_all
      then show "isfinite (ei ! i)"
        using e by (cases "0 < v") (simp_all add: EI_point_Fin)
    qed
    show ?thesis
      using zero pos formula finite by blast
  qed
  then show ?thesis
    using res len by blast
qed

theorem full_EI_zero_variance_witness:
  "\<exists>ei. full_EI (Fin 4) [Fin 5, Fin 5] [Fin 0, Fin 4] = Inr ei \<and> length ei = 2 \<and>
         ei ! 0 = Fin 0 \<and> ei ! 1 = Fin (Phi (1 / 2) + 2 * phi (1 / 2)) \<and> isfinite (ei ! 1)"
proof -
  have h: "length [Fin 0, Fin 4] = length [Fin 5, Fin 5]"
    by simp
  from full_EI_zero_variance [OF h, of "Fin 4"] obtain ei where
    res: "full_EI (Fin 4) [Fin 5, Fin 5] [Fin 0, Fin 4] = Inr ei"
    and len: "length ei = length [Fin 5, Fin 5 :: fl]"
    and ent: "\<forall>i<length [Fin 5, Fin 5 :: fl].
              ([Fin 0, Fin 4] ! i = Fin 0 \<longrightarrow> ei ! i = Fin 0) \<and>
              (fpos ([Fin 0, Fin 4] ! i) \<longrightarrow>
                 ei ! i = EI_point (Fin 4) ([Fin 5, Fin 5] ! i) (sqrt_numpy ([Fin 0, Fin 4] ! i))) \<and>
              (\<forall>y m v. Fin 4 = Fin y \<and> [Fin 5, Fin 5] ! i = Fin m \<and> [Fin 0, Fin 4] ! i = Fin v \<and> 0 < v \<longrightarrow>
                 ei ! i = Fin (EI_formula y m v)) \<and>
              (isfinite (Fin 4) \<and> isfinite ([Fin 5, Fin 5] ! i) \<and> isfinite ([Fin 0, Fin 4] ! i) \<longrightarrow>
                 isfinite (ei ! i))"
    by blast
  from ent have "ei ! 0 = Fin 0" "ei ! 1 = Fin (EI_formula 4 5 4)" "isfinite (ei ! 1)"
    by (auto simp add: All_less_Suc)
  with res len show ?thesis
    by (simp add: EI_formula_def Let_def)
qed

text \<open>
  Claim C2. \<open>full_PoI\<close> divides by \<open>sqrt(variance)\<close> at every index, with no guard, and the
  claim takes the score at an index of variance exactly 0 to be well defined all the
  same, 0 or 1. With mean [4], variance [0] and \<open>ymax = 4\<close> the quotient is 0/0: the
  entry of \<open>gamma\<close> is NaN and so is the score. The single-point \<open>PoI\<close> returns 1 at the
  same mean, variance and \<open>ymax\<close>, and the docstring of \<open>full_PoI\<close> says that it breaks
  down without noise although it should not.
\<close>

theorem full_PoI_zero_variance_nan:
  "full_PoI_gamma (Fin 4) [Fin 4] [Fin 0] = Inr [NaN] \<and>
   full_PoI (Fin 4) [Fin 4] [Fin 0] = Inr [NaN] \<and>
   PoI [0 :: real] \<lparr>sample_predict = (\<lambda>x. (Fin 4, Fin 0))\<rparr> (Fin 4) = Inr (Fin 1)"
  by (simp add: full_PoI_def full_PoI_gamma_def elementwise_def fsub_def PoI_def)

text \<open>
  Claim C3. When the Gaussian process reports variance exactly 0 at a point, \<open>EI\<close>
  returns exactly 0 and \<open>PoI\<close> returns exactly 1, whatever the mean and \<open>ymax\<close> are.
\<close>

theorem single_point_zero_variance:
  "snd (sample_predict g x) = Fin 0 \<Longrightarrow> EI x g ymax = Inr (Fin 0) \<and> PoI x g ymax = Inr (Fin 1)"
  by (auto simp add: EI_def PoI_def split: prod.splits)

theorem single_point_zero_variance_witness:
  "snd (sample_predict \<lparr>sample_predict = (\<lambda>x :: real list. (Fin 3, Fin 0))\<rparr> [1, 2]) = Fin 0 \<and>
   EI [1, 2] \<lparr>sample_predict = (\<lambda>x :: real list. (Fin 3, Fin 0))\<rparr> (Fin 7) = Inr (Fin 0) \<and>
   PoI [1, 2] \<lparr>sample_predict = (\<lambda>x :: real list. (Fin 3, Fin 0))\<rparr> (Fin 7) = Inr (Fin 1)"
  using single_point_zero_variance [of "\<lparr>sample_predict = (\<lambda>x :: real list. (Fin 3, Fin 0))\<rparr>" "[1, 2]" "Fin 7"]
  by simp

text \<open>
  Claim C10. The result of \<open>UCB\<close> does not depend on its argument \<open>ymax\<close>: for any two
  values of \<open>ymax\<close> the results are equal, and for a finite mean, a finite variance that
  is not negative and a finite \<open>kappa\<close> the result is \<open>mean + kappa sqrt(variance)\<close>.
\<close>

theorem UCB_ignores_ymax:
  "UCB kappa x g ymax1 = UCB kappa x g ymax2 \<and>
   (sample_predict g x = (Fin m, Fin v) \<and> 0 \<le> v \<longrightarrow>
      UCB (Fin k) x g ymax1 = Inr (Fin (m + k * sqrt v)))"
  by (simp add: UCB_def)

theorem UCB_ignores_ymax_witness:
  "UCB (Fin 2) [1, 2 :: real] \<lparr>sample_predict = (\<lambda>x. (Fin 5, Fin 4))\<rparr> (Fin 0) = Inr (Fin 9) \<and>
   UCB (Fin 2) [1, 2 :: real] \<lparr>sample_predict = (\<lambda>x. (Fin 5, Fin 4))\<rparr> (Fin 100) = Inr (Fin 9)"
proof -
  let ?g = "\<lparr>sample_predict = (\<lambda>x :: real list. (Fin 5, Fin 4))\<rparr>"
  have h: "sample_predict ?g [1, 2] = (Fin 5, Fin 4) \<and> (0 :: real) \<le> 4"
    by simp
  from UCB_ignores_ymax [of "Fin 2" "[1, 2]" ?g "Fin 0" "Fin 100" 5 4 2] h
  have "UCB (Fin 2) [1, 2] ?g (Fin 0) = UCB (Fin 2) [1, 2] ?g (Fin 100)"
    and "UCB (Fin 2) [1, 2] ?g (Fin 0) = Inr (Fin (5 + 2 * sqrt 4))"
    by blast+
  then show ?thesis
    by simp
qed

end
